theory Spec2Isabelle
  imports Main "HOL-Library.Word"
begin

section \<open>The index builder \<^verbatim>\<open>scripts/build_ai_index.mjs\<close>\<close>

text \<open>
  The script lists the files of a repository, decides for each file whether its content is
  embedded in full, as a preview or not at all, and writes packs of such items: four named
  packs, a sharded pack of everything, and a combined pack read back from the named ones.

  Conventions of the embedding.
  \<^item> A \<^verbatim>\<open>Buffer\<close> is a list of bytes (\<open>8 word\<close>); a JavaScript string that holds file
    content is a list of UTF-16 code units (\<open>16 word\<close>), so that \<^verbatim>\<open>content.length\<close> is
    the length of the list. Paths, names and hashes are \<open>string\<close>; paths are taken to be
    ASCII, which is what the quoted output of \<^verbatim>\<open>git ls-tree\<close> gives.
  \<^item> What the script obtains from outside itself is a field of the record \<open>env\<close>: the two
    ways of reading a file, the SHA-256 digest, \<^verbatim>\<open>JSON.parse\<close>, \<^verbatim>\<open>encodeURIComponent\<close>,
    the length of a minified serialisation, and the run-wide constants.
  \<^item> An optional field of an emitted object is an \<open>option\<close>; \<open>None\<close> is a field that is
    missing or \<^verbatim>\<open>undefined\<close> (\<^verbatim>\<open>JSON.stringify\<close> writes neither).
  \<^item> A string is no longer than the engine allows: \<^verbatim>\<open>buf.toString\<close> throws when its result
    would be longer, and the \<^verbatim>\<open>try\<close> blocks catch that as they catch a failed read.
  \<^item> The three writes \<^verbatim>\<open>docs/NAME.json\<close>, \<^verbatim>\<open>docs/NAME.min.json\<close>, \<^verbatim>\<open>docs/NAME.txt\<close> of one
    pack object are one entry \<open>(NAME, pack)\<close> of the list of artifacts, in the order written.
    The HTML pages, the lists without content, the master index and the catalog are left out.
\<close>

subsection \<open>Strings and paths\<close>

type_synonym byte = "8 word"
type_synonym buffer = "byte list"
type_synonym jsstring = "16 word list"

definition startsWith :: "string \<Rightarrow> string \<Rightarrow> bool" where
  "startsWith s p = (take (length p) s = p)"

definition endsWith :: "string \<Rightarrow> string \<Rightarrow> bool" where
  "endsWith s suf = (length suf \<le> length s \<and> drop (length s - length suf) s = suf)"

definition toLowerChar :: "char \<Rightarrow> char" where
  "toLowerChar c =
     (case map_of (zip ''ABCDEFGHIJKLMNOPQRSTUVWXYZ'' ''abcdefghijklmnopqrstuvwxyz'') c of
        Some l \<Rightarrow> l
      | None \<Rightarrow> c)"

definition toLowerCase :: "string \<Rightarrow> string" where
  "toLowerCase s = map toLowerChar s"

text \<open>\<^verbatim>\<open>s.split(c)\<close> for a separator of one character, and \<^verbatim>\<open>parts.join(sep)\<close>.\<close>

fun split_on :: "char \<Rightarrow> string \<Rightarrow> string list" where
  "split_on c [] = [[]]"
| "split_on c (x # xs) =
     (if x = c then [] # split_on c xs
      else (case split_on c xs of
              [] \<Rightarrow> [[x]]
            | w # ws \<Rightarrow> (x # w) # ws))"

fun join :: "string \<Rightarrow> string list \<Rightarrow> string" where
  "join sep [] = []"
| "join sep [x] = x"
| "join sep (x # y # ys) = x @ sep @ join sep (y # ys)"

text \<open>\<^verbatim>\<open>p.split(".").pop()\<close>: what follows the last dot, the whole string when there is none.\<close>

definition split_pop :: "char \<Rightarrow> string \<Rightarrow> string" where
  "split_pop c s = last (split_on c s)"

text \<open>\<^verbatim>\<open>(f.path.split(".").pop()||"").toLowerCase()\<close>\<close>

definition ext_of :: "string \<Rightarrow> string" where
  "ext_of p = toLowerCase (split_pop (CHR ''.'') p)"

text \<open>
  The value of \<^verbatim>\<open>map[ext] || "application/octet-stream"\<close>. The table is an object literal,
  so the keys \<^verbatim>\<open>constructor\<close> and \<^verbatim>\<open>__proto__\<close> find inherited values that are not strings.
\<close>

datatype media = MediaType string | ObjectConstructor | ObjectPrototype

definition media_table :: "(string \<times> string) list" where
  "media_table =
     [(''json'', ''application/json''), (''schema'', ''application/json''),
      (''js'', ''application/javascript''), (''mjs'', ''application/javascript''),
      (''css'', ''text/css''), (''html'', ''text/html''), (''md'', ''text/markdown''),
      (''mdx'', ''text/markdown''), (''txt'', ''text/plain''),
      (''svg'', ''image/svg+xml''), (''png'', ''image/png''), (''jpg'', ''image/jpeg''),
      (''jpeg'', ''image/jpeg''), (''webp'', ''image/webp''), (''ico'', ''image/x-icon''),
      (''pdf'', ''application/pdf''), (''xml'', ''application/xml''), (''yml'', ''text/yaml''),
      (''yaml'', ''text/yaml'')]"

definition mediaTypeFor :: "string \<Rightarrow> media" where
  "mediaTypeFor p =
     (let ext = split_pop (CHR ''.'') (toLowerCase p) in
      case map_of media_table ext of
        Some m \<Rightarrow> MediaType m
      | None \<Rightarrow>
          if ext = ''constructor'' then ObjectConstructor
          else if ext = ''__proto__'' then ObjectPrototype
          else MediaType ''application/octet-stream'')"

text \<open>\<^verbatim>\<open>/^text\//.test(m)\<close>; the string forms of the two inherited values do not match.\<close>

definition media_is_text :: "media \<Rightarrow> bool" where
  "media_is_text m = (case m of MediaType s \<Rightarrow> startsWith s ''text/'' | _ \<Rightarrow> False)"

subsection \<open>File records\<close>

record file_record =
  path :: string
  fsize :: nat
  git_blob_sha :: string
  media_type :: media
  raw_url :: string
  html_url :: string

subsection \<open>Inline limits and policy\<close>

definition TEXT_EXT :: "string list" where
  "TEXT_EXT = [''md'', ''mdx'', ''json'', ''js'', ''mjs'', ''css'', ''html'', ''yml'', ''yaml'',
               ''txt'', ''svg'']"

definition INLINE_TEXT_BYTES :: nat where
  "INLINE_TEXT_BYTES = 600 * 1024"

definition INLINE_BIN_BYTES :: nat where
  "INLINE_BIN_BYTES = 200 * 1024"

definition PREVIEW_TEXT_BYTES :: nat where
  "PREVIEW_TEXT_BYTES = 64 * 1024"

definition ALWAYS_TEXT_FULL_PATHS :: "string list" where
  "ALWAYS_TEXT_FULL_PATHS = [''dog-gifts.json'', ''dog-gifts.schema.json'']"

text \<open>The only entry of \<^verbatim>\<open>ALWAYS_TEXT_FULL_DIRS\<close> is \<^verbatim>\<open>/^docs\//i\<close>.\<close>

definition alwaysFullText :: "string \<Rightarrow> bool" where
  "alwaysFullText p =
     (if p \<in> set ALWAYS_TEXT_FULL_PATHS then True else startsWith (toLowerCase p) ''docs/'')"

definition isTextPath :: "string \<Rightarrow> bool" where
  "isTextPath p = (ext_of p \<in> set TEXT_EXT \<or> media_is_text (mediaTypeFor p))"

subsection \<open>Decoding a buffer: \<^verbatim>\<open>buf.toString("utf8")\<close>\<close>

text \<open>
  The UTF-8 decoder of the platform, as the Encoding Standard describes it: a lead byte
  opens a sequence and fixes the range of the next byte; a byte outside that range ends the
  sequence with U+FFFD and is read again as a lead byte; input that ends inside a sequence
  gives one U+FFFD. The state is the code point so far, the number of bytes still needed
  and the bounds for the next byte. A byte order mark is kept.
\<close>

record utf8_state =
  code_point :: nat
  bytes_needed :: nat
  lower_boundary :: nat
  upper_boundary :: nat

definition utf8_init :: utf8_state where
  "utf8_init = \<lparr>code_point = 0, bytes_needed = 0, lower_boundary = 0x80, upper_boundary = 0xBF\<rparr>"

definition REPLACEMENT :: nat where
  "REPLACEMENT = 0xFFFD"

text \<open>A byte read with no sequence open: the code points emitted and the next state.\<close>

definition utf8_lead :: "nat \<Rightarrow> nat list \<times> utf8_state" where
  "utf8_lead b =
     (if b \<le> 0x7F then ([b], utf8_init)
      else if 0xC2 \<le> b \<and> b \<le> 0xDF then
        ([], utf8_init\<lparr>code_point := b mod 32, bytes_needed := 1\<rparr>)
      else if 0xE0 \<le> b \<and> b \<le> 0xEF then
        ([], utf8_init\<lparr>code_point := b mod 16, bytes_needed := 2,
                       lower_boundary := (if b = 0xE0 then 0xA0 else 0x80),
                       upper_boundary := (if b = 0xED then 0x9F else 0xBF)\<rparr>)
      else if 0xF0 \<le> b \<and> b \<le> 0xF4 then
        ([], utf8_init\<lparr>code_point := b mod 8, bytes_needed := 3,
                       lower_boundary := (if b = 0xF0 then 0x90 else 0x80),
                       upper_boundary := (if b = 0xF4 then 0x8F else 0xBF)\<rparr>)
      else ([REPLACEMENT], utf8_init))"

fun utf8_decode :: "utf8_state \<Rightarrow> nat list \<Rightarrow> nat list" where
  "utf8_decode st [] = (if bytes_needed st = 0 then [] else [REPLACEMENT])"
| "utf8_decode st (b # bs) =
     (if bytes_needed st = 0 then
        (case utf8_lead b of (out, st') \<Rightarrow> out @ utf8_decode st' bs)
      else if lower_boundary st \<le> b \<and> b \<le> upper_boundary st then
        (let cp = code_point st * 64 + b mod 64 in
         if bytes_needed st = 1 then cp # utf8_decode utf8_init bs
         else utf8_decode (utf8_init\<lparr>code_point := cp, bytes_needed := bytes_needed st - 1\<rparr>) bs)
      else
        (case utf8_lead b of (out, st') \<Rightarrow> REPLACEMENT # out @ utf8_decode st' bs))"

text \<open>A code point as UTF-16 code units: one unit, or a surrogate pair from U+10000 on.\<close>

definition utf16_units :: "nat \<Rightarrow> jsstring" where
  "utf16_units cp =
     (if cp < 0x10000 then [of_nat cp]
      else [of_nat (0xD800 + (cp - 0x10000) div 1024), of_nat (0xDC00 + (cp - 0x10000) mod 1024)])"

definition toString_utf8 :: "buffer \<Rightarrow> jsstring" where
  "toString_utf8 buf = concat (map utf16_units (utf8_decode utf8_init (map unat buf)))"

subsection \<open>Encoding a buffer: \<^verbatim>\<open>buf.toString("base64")\<close>\<close>

text \<open>The character of a six-bit value in the alphabet \<^verbatim>\<open>A-Z a-z 0-9 + /\<close>.\<close>

definition b64_char :: "nat \<Rightarrow> 16 word" where
  "b64_char n =
     (if n < 26 then of_nat (65 + n)
      else if n < 52 then of_nat (97 + (n - 26))
      else if n < 62 then of_nat (48 + (n - 52))
      else if n = 62 then 43
      else 47)"

definition b64_pad :: "16 word" where
  "b64_pad = 61"

fun b64_encode :: "nat list \<Rightarrow> jsstring" where
  "b64_encode [] = []"
| "b64_encode [a] = [b64_char (a div 4), b64_char (a mod 4 * 16), b64_pad, b64_pad]"
| "b64_encode [a, b] =
     [b64_char (a div 4), b64_char (a mod 4 * 16 + b div 16), b64_char (b mod 16 * 4), b64_pad]"
| "b64_encode (a # b # c # rest) =
     [b64_char (a div 4), b64_char (a mod 4 * 16 + b div 16),
      b64_char (b mod 16 * 4 + c div 64), b64_char (c mod 64)] @ b64_encode rest"

definition toString_base64 :: "buffer \<Rightarrow> jsstring" where
  "toString_base64 buf = b64_encode (map unat buf)"

subsection \<open>The environment of a run\<close>

datatype json =
    JNull
  | JBool bool
  | JNum string
  | JStr jsstring
  | JArr "json list"
  | JObj "(jsstring \<times> json) list"

text \<open>
  \<open>git_show\<close> is \<^verbatim>\<open>execSyncBuffer(`git show ${commit}:${p}`)\<close> and \<open>readFileSync\<close> is
  \<^verbatim>\<open>fs.readFileSync(p)\<close>, with \<open>None\<close> when the call throws. \<open>sha256_hex\<close> is the digest of
  \<^verbatim>\<open>node:crypto\<close>. \<open>JSON_parse\<close> is \<^verbatim>\<open>JSON.parse\<close>, \<open>None\<close> when it throws; an object is the
  list of its own keys, in the order of \<^verbatim>\<open>Object.keys\<close>, with their values; a number is kept
  as written, since the script never computes with it. \<open>minified_length\<close> is the length of
  \<^verbatim>\<open>JSON.stringify\<close> of a pack, given its schema and items.
\<close>

record hint =
  hint_type :: string
  hint_length :: "nat option"
  hint_sample :: "json list option"
  hint_keys :: "jsstring list option"

datatype inline_state = StateFull | StatePreview | StateNone

datatype encoding = Utf8 | Base64

text \<open>An item is a file record with the inline fields; \<^verbatim>\<open>sha\<close> is \<open>git_blob_sha\<close>.\<close>

record item = file_record +
  inline_state :: inline_state
  max_inline_text_bytes :: nat
  max_inline_bin_bytes :: nat
  preview_text_bytes :: nat
  encoding :: "encoding option"
  content :: "jsstring option"
  inline_bytes :: "nat option"
  content_sha256 :: "string option"
  json_hint :: "hint option"

record env =
  env_repo :: string
  env_commit :: string
  env_updatedUtc :: string
  git_show :: "string \<Rightarrow> buffer option"
  readFileSync :: "string \<Rightarrow> buffer option"
  sha256_hex :: "buffer \<Rightarrow> string"
  JSON_parse :: "jsstring \<Rightarrow> json option"
  encodeURIComponent :: "string \<Rightarrow> string"
  minified_length :: "string \<Rightarrow> item list \<Rightarrow> nat"

text \<open>
  \<^verbatim>\<open>buf.toString(encoding)\<close>. The engine creates no string longer than
  \<^verbatim>\<open>buffer.constants.MAX_STRING_LENGTH\<close> code units, 536870888 on a 64-bit build; beyond
  it the call throws \<^verbatim>\<open>ERR_STRING_TOO_LONG\<close>, which is \<open>None\<close> here.
\<close>

definition MAX_STRING_LENGTH :: nat where
  "MAX_STRING_LENGTH = 0x1FFFFFE8"

definition toString :: "encoding \<Rightarrow> buffer \<Rightarrow> jsstring option" where
  "toString en buf =
     (let s = (case en of Utf8 \<Rightarrow> toString_utf8 buf | Base64 \<Rightarrow> toString_base64 buf)
      in if length s \<le> MAX_STRING_LENGTH then Some s else None)"

definition gitShow :: "env \<Rightarrow> string \<Rightarrow> buffer option" where
  "gitShow e p = (case git_show e p of Some buf \<Rightarrow> Some buf | None \<Rightarrow> readFileSync e p)"

definition sha256 :: "env \<Rightarrow> buffer \<Rightarrow> string" where
  "sha256 e buf = sha256_hex e buf"

subsection \<open>JSON shape hints\<close>

definition isArray :: "json \<Rightarrow> bool" where
  "isArray d = (case d of JArr _ \<Rightarrow> True | _ \<Rightarrow> False)"

definition typeof :: "json \<Rightarrow> string" where
  "typeof d =
     (case d of
        JNull \<Rightarrow> ''object''
      | JBool _ \<Rightarrow> ''boolean''
      | JNum _ \<Rightarrow> ''number''
      | JStr _ \<Rightarrow> ''string''
      | JArr _ \<Rightarrow> ''object''
      | JObj _ \<Rightarrow> ''object'')"

text \<open>\<^verbatim>\<open>data && typeof data === "object"\<close>: of the values whose type is object, only null is falsy.\<close>

definition truthy_object :: "json \<Rightarrow> bool" where
  "truthy_object d = (if d = JNull then False else typeof d = ''object'')"

definition shape_of :: "json \<Rightarrow> hint" where
  "shape_of d =
     (let h = \<lparr>hint_type = (if isArray d then ''array''
                            else if truthy_object d then ''object'' else typeof d),
               hint_length = None, hint_sample = None, hint_keys = None\<rparr>
      in case d of
           JArr xs \<Rightarrow> h\<lparr>hint_length := Some (length xs),
                        hint_sample := Some (take (min 3 (length xs)) xs)\<rparr>
         | JObj kvs \<Rightarrow> h\<lparr>hint_keys := Some (take 12 (map fst kvs))\<rparr>
         | _ \<Rightarrow> h)"

definition jsonShapeHint :: "env \<Rightarrow> buffer \<Rightarrow> hint option" where
  "jsonShapeHint e buf =
     (case toString Utf8 buf of
        None \<Rightarrow> None
      | Some text \<Rightarrow>
          (case JSON_parse e text of
             None \<Rightarrow> None
           | Some d \<Rightarrow> Some (shape_of d)))"

subsection \<open>The inline decision of one file\<close>

text \<open>
  The local variables of one iteration: \<^verbatim>\<open>inline_state\<close>, \<^verbatim>\<open>encoding\<close>, \<^verbatim>\<open>content\<close>,
  \<^verbatim>\<open>content_sha\<close> and the hint inside \<^verbatim>\<open>meta\<close>. Two calls throw inside the \<^verbatim>\<open>try\<close> block:
  \<^verbatim>\<open>gitShow\<close>, before any of them is assigned, and \<^verbatim>\<open>buf.toString\<close>, after \<^verbatim>\<open>inline_state\<close>
  and \<^verbatim>\<open>encoding\<close> were assigned and before \<^verbatim>\<open>content\<close>, \<^verbatim>\<open>content_sha\<close> and \<^verbatim>\<open>bytes\<close> are.
\<close>

record locals =
  l_inline_state :: inline_state
  l_encoding :: "encoding option"
  l_content :: "jsstring option"
  l_content_sha :: "string option"
  l_meta :: "hint option"

definition metadata_only :: locals where
  "metadata_only = \<lparr>l_inline_state = StateNone, l_encoding = None, l_content = None,
                      l_content_sha = None, l_meta = None\<rparr>"

text \<open>The locals when \<^verbatim>\<open>buf.toString\<close> has thrown: what was assigned before the call.\<close>

definition thrown :: "inline_state \<Rightarrow> encoding \<Rightarrow> locals" where
  "thrown s en = \<lparr>l_inline_state = s, l_encoding = Some en, l_content = None,
                   l_content_sha = None, l_meta = None\<rparr>"

text \<open>The \<^verbatim>\<open>try\<close> block of \<^verbatim>\<open>writePack\<close>.\<close>

definition writePack_inline :: "env \<Rightarrow> file_record \<Rightarrow> locals" where
  "writePack_inline e f =
     (let ext = ext_of (path f);
          isText = (ext \<in> set TEXT_EXT);
          mustFull = (isText \<and> alwaysFullText (path f))
      in case gitShow e (path f) of
           None \<Rightarrow> metadata_only
         | Some buf \<Rightarrow>
             if isText then
               if mustFull \<or> fsize f \<le> INLINE_TEXT_BYTES then
                 (case toString Utf8 buf of
                    None \<Rightarrow> thrown StateFull Utf8
                  | Some c \<Rightarrow>
                      \<lparr>l_inline_state = StateFull, l_encoding = Some Utf8,
                       l_content = Some c,
                       l_content_sha = Some (sha256 e buf), l_meta = None\<rparr>)
               else if 0 < PREVIEW_TEXT_BYTES then
                 (case toString Utf8 (take PREVIEW_TEXT_BYTES buf) of
                    None \<Rightarrow> thrown StatePreview Utf8
                  | Some c \<Rightarrow>
                      \<lparr>l_inline_state = StatePreview, l_encoding = Some Utf8,
                       l_content = Some c,
                       l_content_sha = Some (sha256 e buf),
                       l_meta = (if ext = ''json'' then jsonShapeHint e buf else None)\<rparr>)
               else metadata_only
             else if fsize f \<le> INLINE_BIN_BYTES then
               (case toString Base64 buf of
                  None \<Rightarrow> thrown StateFull Base64
                | Some c \<Rightarrow>
                    \<lparr>l_inline_state = StateFull, l_encoding = Some Base64,
                     l_content = Some c,
                     l_content_sha = Some (sha256 e buf), l_meta = None\<rparr>)
             else metadata_only)"

text \<open>
  The \<^verbatim>\<open>try\<close> block of \<^verbatim>\<open>writeEverythingSharded\<close>, with what it adds to \<^verbatim>\<open>bytes\<close>. It tests
  \<^verbatim>\<open>isTextPath\<close> and \<^verbatim>\<open>/\.(json)$/i\<close> where \<^verbatim>\<open>writePack\<close> tests the extension.
\<close>

definition shard_inline :: "env \<Rightarrow> file_record \<Rightarrow> locals \<times> nat" where
  "shard_inline e f =
     (case gitShow e (path f) of
        None \<Rightarrow> (metadata_only, 0)
      | Some buf \<Rightarrow>
          if isTextPath (path f) then
            if alwaysFullText (path f) \<or> fsize f \<le> INLINE_TEXT_BYTES then
              (case toString Utf8 buf of
                 None \<Rightarrow> (thrown StateFull Utf8, 0)
               | Some c \<Rightarrow>
                   (\<lparr>l_inline_state = StateFull, l_encoding = Some Utf8, l_content = Some c,
                     l_content_sha = Some (sha256 e buf), l_meta = None\<rparr>, length c))
            else if 0 < PREVIEW_TEXT_BYTES then
              (case toString Utf8 (take PREVIEW_TEXT_BYTES buf) of
                 None \<Rightarrow> (thrown StatePreview Utf8, 0)
               | Some c \<Rightarrow>
                   (\<lparr>l_inline_state = StatePreview, l_encoding = Some Utf8,
                     l_content = Some c,
                     l_content_sha = Some (sha256 e buf),
                     l_meta = (if endsWith (toLowerCase (path f)) ''.json''
                               then jsonShapeHint e buf else None)\<rparr>, length c))
            else (metadata_only, 0)
          else if fsize f \<le> INLINE_BIN_BYTES then
            (case toString Base64 buf of
               None \<Rightarrow> (thrown StateFull Base64, 0)
             | Some c \<Rightarrow>
                 (\<lparr>l_inline_state = StateFull, l_encoding = Some Base64, l_content = Some c,
                   l_content_sha = Some (sha256 e buf), l_meta = None\<rparr>, length c))
          else (metadata_only, 0))"

text \<open>The item built after the \<^verbatim>\<open>try\<close> block, the same in both writers.\<close>

definition make_item :: "file_record \<Rightarrow> locals \<Rightarrow> item" where
  "make_item f l =
     (let inlined = (l_inline_state l \<noteq> StateNone) in
      \<lparr>path = path f, fsize = fsize f, git_blob_sha = git_blob_sha f,
       media_type = media_type f, raw_url = raw_url f, html_url = html_url f,
       inline_state = l_inline_state l,
       max_inline_text_bytes = INLINE_TEXT_BYTES,
       max_inline_bin_bytes = INLINE_BIN_BYTES,
       preview_text_bytes = PREVIEW_TEXT_BYTES,
       encoding = (if inlined then l_encoding l else None),
       content = (if inlined then l_content l else None),
       inline_bytes =
         (if inlined then Some (case l_content l of Some c \<Rightarrow> length c | None \<Rightarrow> 0) else None),
       content_sha256 = (if inlined then l_content_sha l else None),
       json_hint = (if inlined then l_meta l else None)\<rparr>)"

text \<open>The file record an item was made from: its first six fields.\<close>

definition record_of :: "item \<Rightarrow> file_record" where
  "record_of it = file_record.truncate it"

subsection \<open>Named packs\<close>

record pack =
  schema :: string
  repo :: string
  commit :: string
  updated_utc :: string
  count :: nat
  items :: "item list"

type_synonym artifacts = "(string \<times> pack) list"

definition writePack :: "env \<Rightarrow> file_record list \<Rightarrow> string \<Rightarrow> (file_record \<Rightarrow> bool) \<Rightarrow>
    artifacts \<Rightarrow> artifacts" where
  "writePack e files outBase predicate arts =
     (let subset = filter predicate files;
          its = map (\<lambda>f. make_item f (writePack_inline e f)) subset;
          pk = \<lparr>schema = ''barkday.'' @ outBase @ ''.v1'', repo = env_repo e,
                commit = env_commit e, updated_utc = env_updatedUtc e,
                count = length its, items = its\<rparr>
      in arts @ [(outBase, pk)])"

definition CORE_SET :: "string list" where
  "CORE_SET = [''index.html'', ''app.js'', ''app-pdf.js'', ''app-curves-inline.js'',
               ''app-celebrate.js'', ''service-worker.js'', ''js/runtime-fetch.js'',
               ''dog-gifts.json'', ''dog-gifts.schema.json'', ''style.css'', ''manifest.json'']"

text \<open>The predicates of the four targeted packs; the tests with flag \<^verbatim>\<open>i\<close> read the lowered path.\<close>

definition docs_predicate :: "file_record \<Rightarrow> bool" where
  "docs_predicate f =
     (startsWith (path f) ''docs/'' \<and>
      (endsWith (toLowerCase (path f)) ''.md'' \<or> endsWith (toLowerCase (path f)) ''.mdx''))"

definition data_config_predicate :: "file_record \<Rightarrow> bool" where
  "data_config_predicate f =
     (startsWith (toLowerCase (path f)) ''data/'' \<and>
      (endsWith (toLowerCase (path f)) ''.json'' \<or> endsWith (toLowerCase (path f)) ''.yml'' \<or>
       endsWith (toLowerCase (path f)) ''.yaml''))"

definition core_predicate :: "file_record \<Rightarrow> bool" where
  "core_predicate f = (path f \<in> set CORE_SET)"

definition ci_predicate :: "file_record \<Rightarrow> bool" where
  "ci_predicate f =
     (startsWith (path f) ''.github/workflows/'' \<and>
      (endsWith (toLowerCase (path f)) ''.yml'' \<or> endsWith (toLowerCase (path f)) ''.yaml''))"

definition targeted_packs :: "env \<Rightarrow> file_record list \<Rightarrow> artifacts" where
  "targeted_packs e files =
     writePack e files ''ai-pack-ci'' ci_predicate
       (writePack e files ''ai-pack-core'' core_predicate
         (writePack e files ''ai-pack-data-config'' data_config_predicate
           (writePack e files ''ai-pack-docs'' docs_predicate [])))"

subsection \<open>The sharded pack of everything\<close>

definition SHARD_TARGET_BYTES :: nat where
  "SHARD_TARGET_BYTES = 4 * 1024 * 1024"

definition SHARD_MAX_ITEMS :: nat where
  "SHARD_MAX_ITEMS = 500"

fun decimal :: "nat \<Rightarrow> string" where
  "decimal n =
     (if n < 10 then [''0123456789'' ! n]
      else decimal (n div 10) @ [''0123456789'' ! (n mod 10)])"

definition padStart :: "nat \<Rightarrow> char \<Rightarrow> string \<Rightarrow> string" where
  "padStart n c s = replicate (n - length s) c @ s"

record shard_entry =
  name :: string
  shard_count :: nat
  approx_bytes :: nat

text \<open>
  The variables \<^verbatim>\<open>items\<close>, \<^verbatim>\<open>bytes\<close>, \<^verbatim>\<open>shardIdx\<close> and \<^verbatim>\<open>shards\<close> that \<^verbatim>\<open>flush\<close> and the loop
  share, and the artifacts written so far.
\<close>

record shard_state =
  st_items :: "item list"
  st_bytes :: nat
  shardIdx :: nat
  shards :: "shard_entry list"
  written :: artifacts

definition flush :: "env \<Rightarrow> shard_state \<Rightarrow> shard_state" where
  "flush e st =
     (if st_items st = [] then st
      else
        (let nm = ''ai-pack-everything-'' @ padStart 4 (CHR ''0'') (decimal (shardIdx st));
             pk = \<lparr>schema = ''barkday.ai-pack-everything.v1'', repo = env_repo e,
                   commit = env_commit e, updated_utc = env_updatedUtc e,
                   count = length (st_items st), items = st_items st\<rparr>
         in st\<lparr>written := written st @ [(nm, pk)],
               shards := shards st @
                 [\<lparr>name = nm, shard_count = length (st_items st),
                   approx_bytes = minified_length e (schema pk) (items pk)\<rparr>],
               shardIdx := shardIdx st + 1,
               st_items := [],
               st_bytes := 0\<rparr>))"

fun shard_loop :: "env \<Rightarrow> file_record list \<Rightarrow> shard_state \<Rightarrow> shard_state" where
  "shard_loop e [] st = st"
| "shard_loop e (f # fs) st =
     (case shard_inline e f of
        (l, n) \<Rightarrow>
          (let st1 = st\<lparr>st_bytes := st_bytes st + n\<rparr>;
               st2 = st1\<lparr>st_items := st_items st1 @ [make_item f l]\<rparr>
           in shard_loop e fs
                (if SHARD_TARGET_BYTES \<le> st_bytes st2 \<or> SHARD_MAX_ITEMS \<le> length (st_items st2)
                 then flush e st2 else st2)))"

definition everything_subset :: "file_record list \<Rightarrow> file_record list" where
  "everything_subset files =
     filter (\<lambda>f. \<not> startsWith (path f) ''docs/ai-'' \<and> \<not> startsWith (path f) ''.git/'') files"

definition writeEverythingSharded :: "env \<Rightarrow> file_record list \<Rightarrow> artifacts \<Rightarrow> shard_state" where
  "writeEverythingSharded e files arts =
     flush e (shard_loop e (everything_subset files)
       \<lparr>st_items = [], st_bytes = 0, shardIdx = 1, shards = [], written = arts\<rparr>)"

record manifest_entry =
  m_name :: string
  m_count :: nat
  m_approx_bytes :: nat
  url_json :: string
  url_txt :: string

definition manifest_shards :: "shard_state \<Rightarrow> manifest_entry list" where
  "manifest_shards st =
     map (\<lambda>s. \<lparr>m_name = name s, m_count = shard_count s, m_approx_bytes = approx_bytes s,
               url_json = ''docs/'' @ name s @ ''.min.json'',
               url_txt = ''docs/'' @ name s @ ''.txt''\<rparr>) (shards st)"

text \<open>The shard packs of a run that starts with no artifact, in the order written.\<close>

definition shard_packs :: "env \<Rightarrow> file_record list \<Rightarrow> pack list" where
  "shard_packs e files = map snd (written (writeEverythingSharded e files []))"

subsection \<open>The combined pack\<close>

text \<open>
  \<^verbatim>\<open>JSON.parse(fs.readFileSync(`docs/${name}.min.json`, "utf8"))\<close>: the pack written last under
  that name, \<open>None\<close> when no such file was written and the read throws.
\<close>

definition read_min_json :: "artifacts \<Rightarrow> string \<Rightarrow> pack option" where
  "read_min_json arts nm = map_of (rev arts) nm"

definition COMBINED_NAMES :: "string list" where
  "COMBINED_NAMES = [''ai-pack-docs'', ''ai-pack-data-config'', ''ai-pack-core'', ''ai-pack-ci'']"

fun read_packs :: "artifacts \<Rightarrow> string list \<Rightarrow> (string \<times> item list) list option" where
  "read_packs arts [] = Some []"
| "read_packs arts (nm # nms) =
     (case read_min_json arts nm of
        None \<Rightarrow> None
      | Some p \<Rightarrow>
          (case read_packs arts nms of
             None \<Rightarrow> None
           | Some ps \<Rightarrow> Some ((nm, items p) # ps)))"

record pack_section =
  section_count :: nat
  section_items :: "item list"

text \<open>The field \<^verbatim>\<open>sections\<close> of the combined pack, keyed by pack name.\<close>

definition combined_sections :: "artifacts \<Rightarrow> (string \<times> pack_section) list option" where
  "combined_sections arts =
     (case read_packs arts COMBINED_NAMES of
        None \<Rightarrow> None
      | Some ps \<Rightarrow>
          Some (map (\<lambda>p. (fst p, \<lparr>section_count = length (snd p), section_items = snd p\<rparr>)) ps))"

text \<open>The artifacts of a whole run: the targeted packs, then the shards.\<close>

definition run_artifacts :: "env \<Rightarrow> file_record list \<Rightarrow> artifacts" where
  "run_artifacts e files = written (writeEverythingSharded e files (targeted_packs e files))"

subsection \<open>The fallback lister\<close>

text \<open>
  The working directory as \<^verbatim>\<open>readdirSync\<close> and \<^verbatim>\<open>statSync\<close> show it: a file with its name and
  size, a directory with its name and entries. Names are not empty and hold no slash.
  \<^verbatim>\<open>path.join(dir, name)\<close> of such a name under \<^verbatim>\<open>"."\<close> is the name.
\<close>

datatype dirent = FileEnt string nat | DirEnt string "dirent list"

definition path_join :: "string \<Rightarrow> string \<Rightarrow> string" where
  "path_join dir nm = (if dir = ''.'' then nm else dir @ ''/'' @ nm)"

text \<open>\<^verbatim>\<open>p.replace(/^[.][/\\]*/, "")\<close>\<close>

definition strip_dot :: "string \<Rightarrow> string" where
  "strip_dot p =
     (case p of
        [] \<Rightarrow> []
      | c # cs \<Rightarrow>
          if c = CHR ''.'' then dropWhile (\<lambda>x. x = CHR ''/'' \<or> x = CHR 0x5C) cs else p)"

definition enc :: "env \<Rightarrow> string \<Rightarrow> string" where
  "enc e p = join ''/'' (map (encodeURIComponent e) (split_on (CHR ''/'') p))"

definition walk_record :: "env \<Rightarrow> string \<Rightarrow> nat \<Rightarrow> file_record" where
  "walk_record e p sz =
     \<lparr>path = strip_dot p, fsize = sz, git_blob_sha = [], media_type = mediaTypeFor p,
      raw_url = ''https://raw.githubusercontent.com/'' @ env_repo e @ ''/'' @ env_commit e @
                ''/'' @ enc e p,
      html_url = ''https://github.com/'' @ env_repo e @ ''/blob/'' @ env_commit e @
                ''/'' @ enc e p\<rparr>"

text \<open>The record that \<^verbatim>\<open>filesFromGitTree\<close> pushes for one line of \<^verbatim>\<open>git ls-tree\<close>.\<close>

definition tree_record :: "env \<Rightarrow> string \<Rightarrow> nat \<Rightarrow> string \<Rightarrow> file_record" where
  "tree_record e blobSha sz filePath =
     \<lparr>path = filePath, fsize = sz, git_blob_sha = blobSha, media_type = mediaTypeFor filePath,
      raw_url = ''https://raw.githubusercontent.com/'' @ env_repo e @ ''/'' @ env_commit e @
                ''/'' @ enc e filePath,
      html_url = ''https://github.com/'' @ env_repo e @ ''/blob/'' @ env_commit e @
                ''/'' @ enc e filePath\<rparr>"

fun walk :: "env \<Rightarrow> string \<Rightarrow> dirent list \<Rightarrow> file_record list" where
  "walk e dir [] = []"
| "walk e dir (FileEnt nm sz # ents) =
     (if startsWith (path_join dir nm) ''.git'' then walk e dir ents
      else walk_record e (path_join dir nm) sz # walk e dir ents)"
| "walk e dir (DirEnt nm sub # ents) =
     (if startsWith (path_join dir nm) ''.git'' then walk e dir ents
      else walk e (path_join dir nm) sub @ walk e dir ents)"

text \<open>\<open>tracked\<close> is what \<^verbatim>\<open>filesFromGitTree(commit)\<close> returned.\<close>

definition list_files :: "env \<Rightarrow> file_record list \<Rightarrow> dirent list \<Rightarrow> file_record list" where
  "list_files e tracked tree = (if tracked = [] then walk e ''.'' tree else tracked)"

subsection \<open>Notions of the properties\<close>

text \<open>The sum of the \<^verbatim>\<open>inline_bytes\<close> of items: what \<^verbatim>\<open>bytes\<close> counts.\<close>

definition embedded_bytes :: "item list \<Rightarrow> nat" where
  "embedded_bytes its =
     sum_list (map (\<lambda>it. case inline_bytes it of Some n \<Rightarrow> n | None \<Rightarrow> 0) its)"

definition reaches_threshold :: "item list \<Rightarrow> bool" where
  "reaches_threshold its =
     (SHARD_TARGET_BYTES \<le> embedded_bytes its \<or> SHARD_MAX_ITEMS \<le> length its)"

definition flushed_items :: "shard_state \<Rightarrow> item list" where
  "flushed_items st = concat (map (\<lambda>a. items (snd a)) (written st))"

text \<open>A shard as the loop closes it, and the state between two iterations.\<close>

definition well_closed :: "pack \<Rightarrow> bool" where
  "well_closed p =
     (count p = length (items p) \<and> items p \<noteq> [] \<and>
      list_all (\<lambda>k. \<not> reaches_threshold (take k (items p))) [0..<length (items p)])"

definition loop_invariant :: "shard_state \<Rightarrow> bool" where
  "loop_invariant st =
     (list_all (\<lambda>a. well_closed (snd a) \<and> reaches_threshold (items (snd a))) (written st) \<and>
      map (\<lambda>s. (name s, shard_count s)) (shards st) =
        map (\<lambda>a. (fst a, count (snd a))) (written st) \<and>
      st_bytes st = embedded_bytes (st_items st) \<and>
      list_all (\<lambda>k. \<not> reaches_threshold (take k (st_items st)))
        [0..<Suc (length (st_items st))])"

text \<open>
  A decoder of base64 (RFC 4648), to state what the embedded content of a binary file
  decodes to; the script itself only encodes.
\<close>

definition b64_value :: "16 word \<Rightarrow> nat option" where
  "b64_value c =
     (let n = unat c in
      if 65 \<le> n \<and> n \<le> 90 then Some (n - 65)
      else if 97 \<le> n \<and> n \<le> 122 then Some (n - 97 + 26)
      else if 48 \<le> n \<and> n \<le> 57 then Some (n - 48 + 52)
      else if n = 43 then Some 62
      else if n = 47 then Some 63
      else None)"

fun b64_decode :: "jsstring \<Rightarrow> nat list option" where
  "b64_decode [] = Some []"
| "b64_decode (c1 # c2 # c3 # c4 # rest) =
     (case (b64_value c1, b64_value c2) of
        (Some s1, Some s2) \<Rightarrow>
          if rest = [] \<and> c3 = b64_pad \<and> c4 = b64_pad then Some [s1 * 4 + s2 div 16]
          else
            (case b64_value c3 of
               None \<Rightarrow> None
             | Some s3 \<Rightarrow>
                 if rest = [] \<and> c4 = b64_pad
                 then Some [s1 * 4 + s2 div 16, s2 mod 16 * 16 + s3 div 4]
                 else
                   (case b64_value c4 of
                      None \<Rightarrow> None
                    | Some s4 \<Rightarrow>
                        (case b64_decode rest of
                           None \<Rightarrow> None
                         | Some bs \<Rightarrow>
                             Some ([s1 * 4 + s2 div 16, s2 mod 16 * 16 + s3 div 4,
                                    s3 mod 4 * 64 + s4] @ bs))))
      | _ \<Rightarrow> None)"
| "b64_decode _ = None"

definition fromBase64 :: "jsstring \<Rightarrow> buffer option" where
  "fromBase64 s = map_option (map of_nat) (b64_decode s)"

text \<open>
  \<^verbatim>\<open>Buffer.byteLength(s, "utf8")\<close>: the bytes of a string written as UTF-8, which is how the
  artifacts are written. A surrogate pair takes four bytes, a lone surrogate three. The
  script does not call it; it is one reading of the byte length of embedded content.
\<close>

definition unit_bytes :: "nat \<Rightarrow> nat" where
  "unit_bytes u = (if u < 0x80 then 1 else if u < 0x800 then 2 else 3)"

fun utf8_bytes :: "nat list \<Rightarrow> nat" where
  "utf8_bytes [] = 0"
| "utf8_bytes [u] = unit_bytes u"
| "utf8_bytes (u # v # us) =
     (if 0xD800 \<le> u \<and> u \<le> 0xDBFF \<and> 0xDC00 \<le> v \<and> v \<le> 0xDFFF then 4 + utf8_bytes us
      else unit_bytes u + utf8_bytes (v # us))"

definition byteLength_utf8 :: "jsstring \<Rightarrow> nat" where
  "byteLength_utf8 s = utf8_bytes (map unat s)"

text \<open>The items of the pack that one call of \<^verbatim>\<open>writePack\<close> writes, and of all shards.\<close>

definition pack_items :: "env \<Rightarrow> file_record list \<Rightarrow> string \<Rightarrow> (file_record \<Rightarrow> bool) \<Rightarrow>
    item list" where
  "pack_items e files outBase predicate =
     concat (map (\<lambda>a. items (snd a)) (writePack e files outBase predicate []))"

definition shard_items :: "env \<Rightarrow> file_record list \<Rightarrow> item list" where
  "shard_items e files = concat (map items (shard_packs e files))"

text \<open>Two states of the sharded writer that differ only by artifacts written before.\<close>

definition after_artifacts :: "artifacts \<Rightarrow> shard_state \<Rightarrow> shard_state \<Rightarrow> bool" where
  "after_artifacts arts st st' =
     (st_items st' = st_items st \<and> st_bytes st' = st_bytes st \<and> shardIdx st' = shardIdx st \<and>
      shards st' = shards st \<and> written st' = arts @ written st)"

text \<open>
  Well-formed UTF-8, by the byte ranges of the Unicode Standard (table 3-7): one byte,
  or a lead byte with one, two or three continuation bytes, the first of them narrowed
  after \<open>E0\<close>, \<open>ED\<close>, \<open>F0\<close> and \<open>F4\<close>.
\<close>

inductive well_formed_utf8 :: "nat list \<Rightarrow> bool" where
  wf_empty: "well_formed_utf8 []"
| wf_one: "b \<le> 0x7F \<Longrightarrow> well_formed_utf8 r \<Longrightarrow> well_formed_utf8 (b # r)"
| wf_two: "0xC2 \<le> b \<Longrightarrow> b \<le> 0xDF \<Longrightarrow> 0x80 \<le> c \<Longrightarrow> c \<le> 0xBF \<Longrightarrow>
     well_formed_utf8 r \<Longrightarrow> well_formed_utf8 (b # c # r)"
| wf_three: "0xE0 \<le> b \<Longrightarrow> b \<le> 0xEF \<Longrightarrow>
     (if b = 0xE0 then 0xA0 else 0x80) \<le> c1 \<Longrightarrow> c1 \<le> (if b = 0xED then 0x9F else 0xBF) \<Longrightarrow>
     0x80 \<le> c2 \<Longrightarrow> c2 \<le> 0xBF \<Longrightarrow>
     well_formed_utf8 r \<Longrightarrow> well_formed_utf8 (b # c1 # c2 # r)"
| wf_four: "0xF0 \<le> b \<Longrightarrow> b \<le> 0xF4 \<Longrightarrow>
     (if b = 0xF0 then 0x90 else 0x80) \<le> c1 \<Longrightarrow> c1 \<le> (if b = 0xF4 then 0x8F else 0xBF) \<Longrightarrow>
     0x80 \<le> c2 \<Longrightarrow> c2 \<le> 0xBF \<Longrightarrow> 0x80 \<le> c3 \<Longrightarrow> c3 \<le> 0xBF \<Longrightarrow>
     well_formed_utf8 r \<Longrightarrow> well_formed_utf8 (b # c1 # c2 # c3 # r)"

code_pred well_formed_utf8 .

subsection \<open>A sample run\<close>

text \<open>
  Five files: 4 MiB of the letter A under \<^verbatim>\<open>docs/\<close>; a JSON array followed by blanks, 700000
  bytes in all; three bytes of an image; a text file whose bytes are not well-formed UTF-8
  (an invalid byte, then e acute in two bytes); a text file of well-formed UTF-8 that is
  not ASCII (e acute in two bytes, then an emoji in four). The digest of the sample is a
  stand-in that tells buffers of different lengths apart.
\<close>

definition sample_md :: buffer where
  "sample_md = replicate 4194304 0x41"

definition sample_json :: buffer where
  "sample_json = [0x5B, 0x31, 0x2C, 0x32, 0x2C, 0x33, 0x2C, 0x34, 0x5D] @ replicate 699991 0x20"

definition sample_png :: buffer where
  "sample_png = [0x89, 0x50, 0x4E]"

definition sample_txt :: buffer where
  "sample_txt = [0xFF, 0xC3, 0xA9]"

definition sample_notes :: buffer where
  "sample_notes = [0xC3, 0xA9, 0xF0, 0x9F, 0x98, 0x80]"

definition sample_env :: env where
  "sample_env =
     \<lparr>env_repo = ''owner/site'', env_commit = ''0123abc'', env_updatedUtc = ''2025-01-01'',
      git_show = map_of [(''docs/big.md'', sample_md), (''data/big.json'', sample_json),
                         (''logo.png'', sample_png), (''a.txt'', sample_txt),
                         (''notes.txt'', sample_notes)],
      readFileSync = (\<lambda>p. None),
      sha256_hex = (\<lambda>buf. decimal (length buf)),
      JSON_parse = (\<lambda>s. if s = map ucast sample_json
                         then Some (JArr [JNum ''1'', JNum ''2'', JNum ''3'', JNum ''4''])
                         else None),
      encodeURIComponent = (\<lambda>s. s),
      minified_length = (\<lambda>s its. length s + length its)\<rparr>"

definition md_file :: file_record where
  "md_file = tree_record sample_env ''aa'' 4194304 ''docs/big.md''"

definition json_file :: file_record where
  "json_file = tree_record sample_env ''bb'' 700000 ''data/big.json''"

definition png_file :: file_record where
  "png_file = tree_record sample_env ''cc'' 3 ''logo.png''"

definition txt_file :: file_record where
  "txt_file = tree_record sample_env ''dd'' 3 ''a.txt''"

definition notes_file :: file_record where
  "notes_file = tree_record sample_env ''ee'' 6 ''notes.txt''"

text \<open>
  A Markdown file under \<^verbatim>\<open>docs/\<close> that is one letter longer than the longest string; too
  large for the output of \<^verbatim>\<open>git show\<close> to be taken, it is read from the working directory.
\<close>

definition huge_md :: buffer where
  "huge_md = replicate (Suc MAX_STRING_LENGTH) 0x41"

definition huge_env :: env where
  "huge_env =
     sample_env\<lparr>git_show := (\<lambda>p. None),
                readFileSync := map_of [(''docs/huge.md'', huge_md)]\<rparr>"

definition huge_file :: file_record where
  "huge_file = tree_record huge_env ''99'' (Suc MAX_STRING_LENGTH) ''docs/huge.md''"

text \<open>
  A fifth file: the JSON text \<^verbatim>\<open>null\<close> followed by blanks, 700000 bytes in all, and the same
  environment reading it.
\<close>

definition null_json :: buffer where
  "null_json = [0x6E, 0x75, 0x6C, 0x6C] @ replicate 699996 0x20"

definition null_env :: env where
  "null_env =
     sample_env\<lparr>git_show := map_of [(''data/null.json'', null_json)],
                JSON_parse := (\<lambda>s. if s = map ucast null_json then Some JNull else None)\<rparr>"

definition null_file :: file_record where
  "null_file = tree_record null_env ''ff'' 700000 ''data/null.json''"

text \<open>
  A working directory for the fallback: the metadata directory, a workflow, two dot files
  and a page.
\<close>

definition sample_tree :: "dirent list" where
  "sample_tree =
     [DirEnt ''.git'' [FileEnt ''HEAD'' 23],
      DirEnt ''.github'' [DirEnt ''workflows'' [FileEnt ''ci.yml'' 120]],
      FileEnt ''.gitignore'' 10,
      FileEnt ''.nojekyll'' 0,
      FileEnt ''index.html'' 50]"

declare decimal.simps [simp del]

section \<open>Properties\<close>

subsection \<open>The shards hold the filtered files, in order\<close>

lemma record_of_make_item: "record_of (make_item f l) = f"
  by (simp add: record_of_def make_item_def file_record.truncate_def Let_def)

lemma flushed_items_flush:
  "flushed_items (flush e st) @ st_items (flush e st) = flushed_items st @ st_items st"
  by (simp add: flush_def flushed_items_def Let_def)

lemma flushed_items_shard_loop:
  "flushed_items (shard_loop e fs st) @ st_items (shard_loop e fs st) =
     flushed_items st @ st_items st @ map (\<lambda>f. make_item f (fst (shard_inline e f))) fs"
proof (induction fs arbitrary: st)
  case Nil
  show ?case by simp
next
  case (Cons f fs)
  obtain l n where ln: "shard_inline e f = (l, n)" by (cases "shard_inline e f")
  show ?case
    by (simp add: ln Let_def Cons.IH flushed_items_flush) (simp add: flushed_items_def)
qed

lemma st_items_flush: "st_items (flush e st) = []"
  by (simp add: flush_def Let_def)

lemma shard_packs_items:
  "concat (map items (shard_packs e files)) =
     map (\<lambda>f. make_item f (fst (shard_inline e f))) (everything_subset files)"
proof -
  let ?st = "shard_loop e (everything_subset files)
       \<lparr>st_items = [], st_bytes = 0, shardIdx = 1, shards = [], written = []\<rparr>"
  have "flushed_items (flush e ?st) = flushed_items (flush e ?st) @ st_items (flush e ?st)"
    by (simp add: st_items_flush)
  also have "\<dots> = flushed_items ?st @ st_items ?st"
    by (rule flushed_items_flush)
  also have "\<dots> = map (\<lambda>f. make_item f (fst (shard_inline e f))) (everything_subset files)"
    by (simp add: flushed_items_shard_loop) (simp add: flushed_items_def)
  finally show ?thesis
    by (simp add: shard_packs_def writeEverythingSharded_def flushed_items_def comp_def)
qed

text \<open>
  Claim C1. The items of all shards, taken shard after shard and in each shard in their
  order, are made from exactly the files that pass the filter of the sharded pack (neither
  under \<^verbatim>\<open>docs/ai-\<close> nor under \<^verbatim>\<open>.git/\<close>), each once and in the order of the input.
\<close>

theorem shards_reproduce_filtered_files:
  "map record_of (concat (map items (shard_packs e files))) = everything_subset files"
  by (simp add: shard_packs_items comp_def record_of_make_item)

subsection \<open>Decoding ASCII, and the sample run\<close>

lemma utf8_lead_ascii: "b < 0x80 \<Longrightarrow> utf8_lead b = ([b], utf8_init)"
  by (simp add: utf8_lead_def)

lemma bytes_needed_init: "bytes_needed utf8_init = 0"
  by (simp add: utf8_init_def)

lemma utf8_decode_ascii:
  "list_all (\<lambda>b. b < 0x80) bs \<Longrightarrow> utf8_decode utf8_init bs = bs"
  by (induction bs) (simp_all add: utf8_lead_ascii bytes_needed_init)

lemma utf16_units_byte: "utf16_units (unat (b :: byte)) = [ucast b]"
proof -
  have "unat b < 2 ^ LENGTH(8)"
    by (rule unsigned_less)
  then have "unat b < 65536"
    by simp
  then show ?thesis
    by (simp add: utf16_units_def)
qed

lemma utf16_units_bytes: "concat (map utf16_units (map unat buf)) = map ucast (buf :: buffer)"
  by (induction buf) (simp_all add: utf16_units_byte)

lemma toString_utf8_ascii:
  assumes "list_all (\<lambda>b. b < 0x80) buf"
  shows "toString_utf8 buf = map ucast buf"
proof -
  have "list_all (\<lambda>b. b < 0x80) (map unat buf)"
    using assms by (simp add: list_all_iff word_less_nat_alt)
  then have "utf8_decode utf8_init (map unat buf) = map unat buf"
    by (rule utf8_decode_ascii)
  then show ?thesis
    unfolding toString_utf8_def by (simp only: utf16_units_bytes)
qed

text \<open>\<^verbatim>\<open>toString\<close> returns the decoded or encoded string when that is short enough.\<close>

lemma toString_utf8_ok:
  "length (toString_utf8 buf) \<le> MAX_STRING_LENGTH \<Longrightarrow>
     toString Utf8 buf = Some (toString_utf8 buf)"
  by (simp add: toString_def)

lemma toString_base64_ok:
  "length (toString_base64 buf) \<le> MAX_STRING_LENGTH \<Longrightarrow>
     toString Base64 buf = Some (toString_base64 buf)"
  by (simp add: toString_def)

lemma toString_Some:
  "toString en buf = Some c \<Longrightarrow>
     c = (case en of Utf8 \<Rightarrow> toString_utf8 buf | Base64 \<Rightarrow> toString_base64 buf) \<and>
     length c \<le> MAX_STRING_LENGTH"
  by (auto simp add: toString_def Let_def split: if_splits)

lemma toString_None:
  "toString en buf = None \<Longrightarrow>
     MAX_STRING_LENGTH <
       length (case en of Utf8 \<Rightarrow> toString_utf8 buf | Base64 \<Rightarrow> toString_base64 buf)"
  by (auto simp add: toString_def Let_def split: if_splits)

lemma path_md: "path md_file = ''docs/big.md''"
  by (simp add: md_file_def tree_record_def)

lemma path_png: "path png_file = ''logo.png''"
  by (simp add: png_file_def tree_record_def)

lemma toString_sample_md: "toString_utf8 sample_md = replicate 4194304 0x41"
  by (simp add: sample_md_def toString_utf8_ascii list_all_iff)

lemma toString_md: "toString Utf8 sample_md = Some (replicate 4194304 0x41)"
  by (simp add: toString_def toString_sample_md MAX_STRING_LENGTH_def)

lemma shard_inline_md:
  "shard_inline sample_env md_file =
     (\<lparr>l_inline_state = StateFull, l_encoding = Some Utf8,
       l_content = Some (replicate 4194304 0x41),
       l_content_sha = Some (sha256 sample_env sample_md), l_meta = None\<rparr>, 4194304)"
  by (simp add: shard_inline_def path_md gitShow_def sample_env_def isTextPath_def ext_of_def
      split_pop_def toLowerCase_def toLowerChar_def TEXT_EXT_def alwaysFullText_def
      ALWAYS_TEXT_FULL_PATHS_def startsWith_def toString_md)

lemma toString_png:
  "toString Base64 sample_png = Some (toString_base64 sample_png)"
  "length (toString_base64 sample_png) = 4"
  by (simp_all add: toString_def toString_base64_def sample_png_def MAX_STRING_LENGTH_def)

lemma shard_inline_png:
  "snd (shard_inline sample_env png_file) = 4"
  by (simp add: shard_inline_def toString_png path_png gitShow_def sample_env_def isTextPath_def ext_of_def
      split_pop_def toLowerCase_def toLowerChar_def TEXT_EXT_def mediaTypeFor_def media_table_def
      media_is_text_def startsWith_def png_file_def tree_record_def INLINE_BIN_BYTES_def)

subsection \<open>How shards close\<close>

lemma inline_bytes_make_item:
  "(case inline_bytes (make_item f (fst (shard_inline e f))) of Some n \<Rightarrow> n | None \<Rightarrow> 0) =
     snd (shard_inline e f)"
  by (simp add: shard_inline_def make_item_def metadata_only_def thrown_def Let_def
      split: option.splits)

lemma embedded_bytes_snoc:
  "embedded_bytes (its @ [make_item f (fst (shard_inline e f))]) =
     embedded_bytes its + snd (shard_inline e f)"
  by (simp add: embedded_bytes_def inline_bytes_make_item)

lemma prefixes_snoc:
  assumes "list_all (\<lambda>k. \<not> reaches_threshold (take k its)) [0..<Suc (length its)]"
  shows "list_all (\<lambda>k. \<not> reaches_threshold (take k (its @ [x]))) [0..<Suc (length its)]"
  using assms by (simp add: list_all_iff)

lemma loop_invariant_step:
  assumes inv: "loop_invariant st" and ln: "shard_inline e f = (l, n)"
  defines "st2 \<equiv> st\<lparr>st_bytes := st_bytes st + n, st_items := st_items st @ [make_item f l]\<rparr>"
  shows "loop_invariant
           (if SHARD_TARGET_BYTES \<le> st_bytes st2 \<or> SHARD_MAX_ITEMS \<le> length (st_items st2)
            then flush e st2 else st2)"
proof -
  have l: "l = fst (shard_inline e f)" and n: "n = snd (shard_inline e f)"
    using ln by simp_all
  have bytes: "st_bytes st2 = embedded_bytes (st_items st2)"
    using inv by (simp add: st2_def loop_invariant_def l n embedded_bytes_snoc)
  have pre: "list_all (\<lambda>k. \<not> reaches_threshold (take k (st_items st2))) [0..<length (st_items st2)]"
    using inv prefixes_snoc [of "st_items st" "make_item f l"]
    by (simp add: st2_def loop_invariant_def)
  have reach: "reaches_threshold (st_items st2) =
      (SHARD_TARGET_BYTES \<le> st_bytes st2 \<or> SHARD_MAX_ITEMS \<le> length (st_items st2))"
    by (simp add: reaches_threshold_def bytes)
  have thr: "\<not> reaches_threshold []"
    by (simp add: reaches_threshold_def embedded_bytes_def SHARD_TARGET_BYTES_def
        SHARD_MAX_ITEMS_def)
  show ?thesis
  proof (cases "reaches_threshold (st_items st2)")
    case True
    have ne: "st_items st2 \<noteq> []" by (simp add: st2_def)
    have "loop_invariant (flush e st2)"
      using inv pre True ne thr
      by (simp add: flush_def Let_def loop_invariant_def well_closed_def embedded_bytes_def)
        (simp add: st2_def)
    with True reach show ?thesis by simp
  next
    case False
    have "loop_invariant st2"
      using inv pre False bytes
      by (simp add: loop_invariant_def) (simp add: st2_def)
    with False reach show ?thesis by simp
  qed
qed

lemma loop_invariant_shard_loop:
  "loop_invariant st \<Longrightarrow> loop_invariant (shard_loop e fs st)"
proof (induction fs arbitrary: st)
  case Nil
  then show ?case by simp
next
  case (Cons f fs)
  obtain l n where ln: "shard_inline e f = (l, n)" by (cases "shard_inline e f")
  let ?st2 = "st\<lparr>st_bytes := st_bytes st + n, st_items := st_items st @ [make_item f l]\<rparr>"
  let ?next = "if SHARD_TARGET_BYTES \<le> st_bytes ?st2 \<or> SHARD_MAX_ITEMS \<le> length (st_items ?st2)
               then flush e ?st2 else ?st2"
  have "shard_loop e (f # fs) st = shard_loop e fs ?next"
    by (simp add: ln Let_def)
  moreover have "loop_invariant (shard_loop e fs ?next)"
    by (rule Cons.IH) (rule loop_invariant_step [OF Cons.prems ln])
  ultimately show ?case by simp
qed

lemma loop_invariant_init:
  "loop_invariant \<lparr>st_items = [], st_bytes = 0, shardIdx = 1, shards = [], written = []\<rparr>"
  by (simp add: loop_invariant_def embedded_bytes_def reaches_threshold_def
      SHARD_TARGET_BYTES_def SHARD_MAX_ITEMS_def)

lemma well_closed_le: "well_closed p \<Longrightarrow> length (items p) \<le> SHARD_MAX_ITEMS"
proof -
  assume w: "well_closed p"
  then have "length (items p) - 1 < length (items p)"
    by (simp add: well_closed_def)
  with w have "\<not> reaches_threshold (take (length (items p) - 1) (items p))"
    by (simp add: well_closed_def list_all_iff)
  then have "length (items p) - 1 < SHARD_MAX_ITEMS"
    by (simp add: reaches_threshold_def)
  then show ?thesis by arith
qed

text \<open>After the last flush: every shard is well closed, all but the last reach a threshold.\<close>

lemma flush_final:
  assumes "loop_invariant st"
  shows "list_all (\<lambda>a. well_closed (snd a)) (written (flush e st)) \<and>
         list_all (\<lambda>a. reaches_threshold (items (snd a))) (butlast (written (flush e st))) \<and>
         map (\<lambda>s. (name s, shard_count s)) (shards (flush e st)) =
           map (\<lambda>a. (fst a, count (snd a))) (written (flush e st))"
proof (cases "st_items st = []")
  case True
  with assms show ?thesis
    by (simp add: flush_def loop_invariant_def list_all_iff) (meson in_set_butlastD)
next
  case False
  with assms show ?thesis
    by (simp add: flush_def Let_def loop_invariant_def well_closed_def list_all_iff)
qed

lemma shard_run_final:
  "list_all well_closed (shard_packs e files) \<and>
   list_all (\<lambda>p. reaches_threshold (items p)) (butlast (shard_packs e files)) \<and>
   map shard_count (shards (writeEverythingSharded e files [])) =
     map count (shard_packs e files)"
proof -
  let ?st = "shard_loop e (everything_subset files)
       \<lparr>st_items = [], st_bytes = 0, shardIdx = 1, shards = [], written = []\<rparr>"
  have inv: "loop_invariant ?st"
    by (rule loop_invariant_shard_loop) (rule loop_invariant_init)
  note fin = flush_final [OF inv, of e]
  have a: "list_all well_closed (shard_packs e files)"
    using fin by (simp add: shard_packs_def writeEverythingSharded_def list_all_iff)
  have b: "list_all (\<lambda>p. reaches_threshold (items p)) (butlast (shard_packs e files))"
    using fin
    by (simp add: shard_packs_def writeEverythingSharded_def list_all_iff map_butlast [symmetric])
  from fin have "map (\<lambda>s. (name s, shard_count s)) (shards (flush e ?st)) =
      map (\<lambda>a. (fst a, count (snd a))) (written (flush e ?st))"
    by simp
  then have "map snd (map (\<lambda>s. (name s, shard_count s)) (shards (flush e ?st))) =
      map snd (map (\<lambda>a. (fst a, count (snd a))) (written (flush e ?st)))"
    by (rule arg_cong)
  then have c: "map shard_count (shards (writeEverythingSharded e files [])) =
      map count (shard_packs e files)"
    by (simp add: shard_packs_def writeEverythingSharded_def comp_def)
  from a b c show ?thesis by simp
qed

lemma shard_counts_sum:
  "sum_list (map count (shard_packs e files)) = length (everything_subset files)"
proof -
  have "list_all well_closed (shard_packs e files)"
    using shard_run_final [of e files] by simp
  then have "map count (shard_packs e files) = map (\<lambda>p. length (items p)) (shard_packs e files)"
    by (simp add: list_all_iff well_closed_def)
  then have "sum_list (map count (shard_packs e files)) =
      sum_list (map (\<lambda>p. length (items p)) (shard_packs e files))"
    by (rule arg_cong)
  also have "\<dots> = length (concat (map items (shard_packs e files)))"
    by (simp add: length_concat comp_def)
  also have "\<dots> = length (everything_subset files)"
    by (simp add: shard_packs_items)
  finally show ?thesis .
qed

text \<open>
  Claim C2. With the target of 4 MiB and the cap of 500 items: every shard records its
  number of items, holds at most the cap, and no proper prefix of it had reached the byte
  target (counted as the script counts, by \<^verbatim>\<open>content.length\<close>, the \<^verbatim>\<open>inline_bytes\<close> of the
  items) or the cap, so a shard closes at the first item that reaches one of them; every
  shard but the last has reached one of the two; and the counts of the shards add up to
  the number of filtered files, so what remains after the last closing is flushed too.
\<close>

theorem shard_closes_at_threshold:
  "SHARD_TARGET_BYTES = 4194304 \<and> SHARD_MAX_ITEMS = 500 \<and>
   (\<forall>p \<in> set (shard_packs e files).
      count p = length (items p) \<and> count p \<le> SHARD_MAX_ITEMS \<and>
      (\<forall>k < length (items p). \<not> reaches_threshold (take k (items p)))) \<and>
   (\<forall>p \<in> set (butlast (shard_packs e files)). reaches_threshold (items p)) \<and>
   sum_list (map count (shard_packs e files)) = length (everything_subset files)"
proof -
  have wc: "\<forall>p \<in> set (shard_packs e files). well_closed p"
    and rt: "\<forall>p \<in> set (butlast (shard_packs e files)). reaches_threshold (items p)"
    using shard_run_final [of e files] by (simp_all add: list_all_iff)
  have "count p = length (items p) \<and> count p \<le> SHARD_MAX_ITEMS \<and>
      (\<forall>k < length (items p). \<not> reaches_threshold (take k (items p)))"
    if "p \<in> set (shard_packs e files)" for p
  proof -
    from that wc have w: "well_closed p" by simp
    then show ?thesis
      using well_closed_le [OF w] by (simp add: well_closed_def list_all_iff)
  qed
  then have main: "\<forall>p \<in> set (shard_packs e files).
      count p = length (items p) \<and> count p \<le> SHARD_MAX_ITEMS \<and>
      (\<forall>k < length (items p). \<not> reaches_threshold (take k (items p)))"
    by blast
  have tc: "SHARD_TARGET_BYTES = 4194304 \<and> SHARD_MAX_ITEMS = 500"
    by (simp add: SHARD_TARGET_BYTES_def SHARD_MAX_ITEMS_def)
  from tc main rt shard_counts_sum [of e files] show ?thesis
    by blast
qed

subsection \<open>No shard is empty\<close>

text \<open>
  Claim C10. Every shard written holds at least one item, the manifest lists the counts of
  the shards written, so every entry of the manifest counts at least one item; a flush
  with nothing in progress changes nothing, and with no filtered file no shard is written.
\<close>

theorem no_empty_shard:
  "(\<forall>p \<in> set (shard_packs e files). 1 \<le> count p \<and> items p \<noteq> []) \<and>
   map m_count (manifest_shards (writeEverythingSharded e files [])) =
     map count (shard_packs e files) \<and>
   (\<forall>m \<in> set (manifest_shards (writeEverythingSharded e files [])). 1 \<le> m_count m) \<and>
   (st_items st = [] \<longrightarrow> flush e st = st) \<and>
   (everything_subset files = [] \<longrightarrow> shard_packs e files = [])"
proof -
  have wc: "\<forall>p \<in> set (shard_packs e files). well_closed p"
    and cnt: "map shard_count (shards (writeEverythingSharded e files [])) =
      map count (shard_packs e files)"
    using shard_run_final [of e files] by (simp_all add: list_all_iff)
  have a: "\<forall>p \<in> set (shard_packs e files). 1 \<le> count p \<and> items p \<noteq> []"
  proof
    fix p assume "p \<in> set (shard_packs e files)"
    with wc have "well_closed p" by simp
    then have "count p = length (items p)" and "items p \<noteq> []"
      by (simp_all add: well_closed_def)
    then show "1 \<le> count p \<and> items p \<noteq> []"
      by (cases "items p") simp_all
  qed
  have b: "map m_count (manifest_shards (writeEverythingSharded e files [])) =
      map count (shard_packs e files)"
    using cnt by (simp add: manifest_shards_def comp_def)
  have c: "\<forall>m \<in> set (manifest_shards (writeEverythingSharded e files [])). 1 \<le> m_count m"
  proof
    fix m assume "m \<in> set (manifest_shards (writeEverythingSharded e files []))"
    then have "m_count m \<in> set (map m_count (manifest_shards (writeEverythingSharded e files [])))"
      by simp
    then have "m_count m \<in> set (map count (shard_packs e files))"
      by (simp only: b)
    then show "1 \<le> m_count m"
      using a by auto
  qed
  have d: "st_items st = [] \<longrightarrow> flush e st = st"
    by (simp add: flush_def)
  have e: "everything_subset files = [] \<longrightarrow> shard_packs e files = []"
    by (simp add: shard_packs_def writeEverythingSharded_def flush_def)
  from a b c d e show ?thesis by simp
qed

lemma sample_two_shards:
  "map (\<lambda>p. map record_of (items p)) (shard_packs sample_env [md_file, png_file]) =
     [[md_file], [png_file]]"
proof -
  obtain l where l: "shard_inline sample_env png_file = (l, 4)"
    using shard_inline_png by (cases "shard_inline sample_env png_file") simp
  show ?thesis
    by (simp add: shard_packs_def writeEverythingSharded_def everything_subset_def path_md
        path_png startsWith_def shard_inline_md l flush_def Let_def SHARD_TARGET_BYTES_def
        SHARD_MAX_ITEMS_def record_of_make_item)
qed

theorem shard_closes_at_threshold_witness:
  "length (shard_packs sample_env [md_file, png_file]) = 2 \<and>
   hd (shard_packs sample_env [md_file, png_file]) \<in>
     set (butlast (shard_packs sample_env [md_file, png_file])) \<and>
   reaches_threshold (items (hd (shard_packs sample_env [md_file, png_file]))) \<and>
   count (hd (shard_packs sample_env [md_file, png_file])) = 1 \<and>
   count (last (shard_packs sample_env [md_file, png_file])) = 1"
proof -
  let ?ps = "shard_packs sample_env [md_file, png_file]"
  have "length (map (\<lambda>p. map record_of (items p)) ?ps) = 2"
    by (simp only: sample_two_shards) simp
  then have len: "length ?ps = 2" by simp
  then obtain p1 p2 where ps: "?ps = [p1, p2]"
    by (cases ?ps; cases "tl ?ps") auto
  have r1: "map record_of (items p1) = [md_file]"
    and r2: "map record_of (items p2) = [png_file]"
    using sample_two_shards by (simp_all add: ps)
  have i1: "length (items p1) = 1"
    using arg_cong [OF r1, of length] by simp
  have i2: "length (items p2) = 1"
    using arg_cong [OF r2, of length] by simp
  from shard_closes_at_threshold [of sample_env "[md_file, png_file]"]
  have "reaches_threshold (items p1)" and "count p1 = length (items p1)"
    and "count p2 = length (items p2)"
    by (simp_all add: ps)
  with i1 i2 show ?thesis
    by (simp add: ps)
qed

theorem no_empty_shard_witness:
  "shard_packs sample_env [md_file, png_file] \<noteq> [] \<and>
   1 \<le> count (hd (shard_packs sample_env [md_file, png_file])) \<and>
   manifest_shards (writeEverythingSharded sample_env [md_file, png_file] []) \<noteq> [] \<and>
   1 \<le> m_count (hd (manifest_shards (writeEverythingSharded sample_env [md_file, png_file] []))) \<and>
   everything_subset [] = [] \<and> shard_packs sample_env [] = []"
proof -
  let ?ps = "shard_packs sample_env [md_file, png_file]"
  let ?ms = "manifest_shards (writeEverythingSharded sample_env [md_file, png_file] [])"
  note inst = no_empty_shard [of sample_env "[md_file, png_file]"]
  have "length (map (\<lambda>p. map record_of (items p)) ?ps) = 2"
    by (simp only: sample_two_shards) simp
  then have ne: "?ps \<noteq> []" by auto
  then have "hd ?ps \<in> set ?ps" by simp
  with inst have c: "1 \<le> count (hd ?ps)" by blast
  from inst have "map m_count ?ms = map count ?ps" by blast
  with ne have ne': "?ms \<noteq> []" by auto
  then have "hd ?ms \<in> set ?ms" by simp
  with inst have c': "1 \<le> m_count (hd ?ms)" by blast
  have "everything_subset [] = []"
    by (simp add: everything_subset_def)
  moreover from no_empty_shard [of sample_env "[]"] this
  have "shard_packs sample_env [] = []" by blast
  ultimately show ?thesis
    using ne c ne' c' by simp
qed

subsection \<open>The items of packs and shards\<close>

lemma pack_items_eq:
  "pack_items e files outBase predicate =
     map (\<lambda>f. make_item f (writePack_inline e f)) (filter predicate files)"
  by (simp add: pack_items_def writePack_def Let_def)

lemma shard_items_eq:
  "shard_items e files =
     map (\<lambda>f. make_item f (fst (shard_inline e f))) (everything_subset files)"
  by (simp add: shard_items_def shard_packs_items)

text \<open>Every emitted item is made from a file by one of the two inline decisions.\<close>

lemma emitted_item:
  assumes "it \<in> set (pack_items e files outBase predicate) \<union> set (shard_items e files)"
  obtains f where "it = make_item f (writePack_inline e f)"
  | f where "it = make_item f (fst (shard_inline e f))"
  using assms by (auto simp add: pack_items_eq shard_items_eq)

subsection \<open>The length of decoded text\<close>

lemma utf16_units_length: "length (utf16_units cp) \<le> 2"
  by (simp add: utf16_units_def)

lemma utf16_units_replacement: "length (utf16_units REPLACEMENT) = 1"
  by (simp add: utf16_units_def REPLACEMENT_def)

lemma utf8_lead_units:
  "length (concat (map utf16_units (fst (utf8_lead b)))) +
     (if bytes_needed (snd (utf8_lead b)) = 0 then 0 else 1) \<le> 1"
  by (simp add: utf8_lead_def utf8_init_def utf16_units_def REPLACEMENT_def)

lemma utf8_decode_units:
  "length (concat (map utf16_units (utf8_decode st bs))) \<le>
     length bs + (if bytes_needed st = 0 then 0 else 1)"
proof (induction bs arbitrary: st)
  case Nil
  show ?case by (simp add: utf16_units_replacement)
next
  case (Cons b bs)
  obtain out st' where lead: "utf8_lead b = (out, st')" by (cases "utf8_lead b")
  let ?cp = "code_point st * 64 + b mod 64"
  let ?st = "utf8_init\<lparr>code_point := ?cp, bytes_needed := bytes_needed st - 1\<rparr>"
  let ?units = "\<lambda>cps. length (concat (map utf16_units cps))"
  have lead_le: "?units out + (if bytes_needed st' = 0 then 0 else 1) \<le> 1"
    using utf8_lead_units [of b] by (simp add: lead)
  have after_lead: "?units (out @ utf8_decode st' bs) \<le> Suc (length bs)"
    using lead_le Cons.IH [of st'] by (simp split: if_splits)
  have replaced: "?units (REPLACEMENT # out @ utf8_decode st' bs) \<le> Suc (Suc (length bs))"
    using after_lead utf16_units_replacement by simp
  have complete: "?units (?cp # utf8_decode utf8_init bs) \<le> Suc (Suc (length bs))"
    using utf16_units_length [of ?cp] Cons.IH [of utf8_init] by (simp add: utf8_init_def)
  have continued: "?units (utf8_decode ?st bs) \<le> Suc (Suc (length bs))"
    using Cons.IH [of ?st] by (simp split: if_splits)
  consider (start) "bytes_needed st = 0"
    | (last) "bytes_needed st = 1" "lower_boundary st \<le> b \<and> b \<le> upper_boundary st"
    | (middle) "bytes_needed st \<noteq> 0" "bytes_needed st \<noteq> 1"
        "lower_boundary st \<le> b \<and> b \<le> upper_boundary st"
    | (broken) "bytes_needed st \<noteq> 0" "\<not> (lower_boundary st \<le> b \<and> b \<le> upper_boundary st)"
    by blast
  then show ?case
  proof cases
    case start
    then have "utf8_decode st (b # bs) = out @ utf8_decode st' bs"
      by (simp add: lead)
    with after_lead start show ?thesis by simp
  next
    case last
    then have "utf8_decode st (b # bs) = ?cp # utf8_decode utf8_init bs"
      by (simp add: Let_def)
    with complete last show ?thesis by simp
  next
    case middle
    then have "utf8_decode st (b # bs) = utf8_decode ?st bs"
      by (simp add: Let_def)
    with continued middle show ?thesis by simp
  next
    case broken
    then have "utf8_decode st (b # bs) = REPLACEMENT # out @ utf8_decode st' bs"
      by (auto simp add: lead)
    with replaced broken show ?thesis by simp
  qed
qed

lemma toString_utf8_length: "length (toString_utf8 buf) \<le> length buf"
  using utf8_decode_units [of utf8_init "map unat buf"]
  by (simp add: toString_utf8_def utf8_init_def)

lemma preview_length: "length (toString_utf8 (take n buf)) \<le> n"
proof -
  have "length (toString_utf8 (take n buf)) \<le> length (take n buf)"
    by (rule toString_utf8_length)
  then show ?thesis by simp
qed

subsection \<open>What an item carries\<close>

lemma make_item_simps:
  "path (make_item f l) = path f"
  "fsize (make_item f l) = fsize f"
  "inline_state (make_item f l) = l_inline_state l"
  "encoding (make_item f l) = (if l_inline_state l = StateNone then None else l_encoding l)"
  "content (make_item f l) = (if l_inline_state l = StateNone then None else l_content l)"
  "content_sha256 (make_item f l) =
     (if l_inline_state l = StateNone then None else l_content_sha l)"
  "json_hint (make_item f l) = (if l_inline_state l = StateNone then None else l_meta l)"
  "inline_bytes (make_item f l) =
     (if l_inline_state l = StateNone then None
      else Some (case l_content l of Some c \<Rightarrow> length c | None \<Rightarrow> 0))"
  by (simp_all add: make_item_def Let_def)

text \<open>The outcomes of the two inline decisions.\<close>

lemma preview_budget_positive: "0 < PREVIEW_TEXT_BYTES"
  by (simp add: PREVIEW_TEXT_BYTES_def)

text \<open>Decoding the slice of a preview does not throw: it is far shorter than the limit.\<close>

lemma toString_preview:
  "toString Utf8 (take PREVIEW_TEXT_BYTES buf) =
     Some (toString_utf8 (take PREVIEW_TEXT_BYTES buf))"
proof -
  have "length (toString_utf8 (take PREVIEW_TEXT_BYTES buf)) \<le> PREVIEW_TEXT_BYTES"
    by (rule preview_length)
  moreover have "PREVIEW_TEXT_BYTES \<le> MAX_STRING_LENGTH"
    by (simp add: PREVIEW_TEXT_BYTES_def MAX_STRING_LENGTH_def)
  ultimately show ?thesis
    by (intro toString_utf8_ok) simp
qed

lemma toString_utf8_cases:
  obtains "toString Utf8 buf = None"
  | "toString Utf8 buf = Some (toString_utf8 buf)"
  by (cases "toString Utf8 buf") (auto dest: toString_Some)

lemma toString_base64_cases:
  obtains "toString Base64 buf = None"
  | "toString Base64 buf = Some (toString_base64 buf)"
  by (cases "toString Base64 buf") (auto dest: toString_Some)

lemma writePack_inline_cases
  [case_names metadata text_full text_thrown text_preview binary_full binary_thrown]:
  obtains "writePack_inline e f = metadata_only"
  | buf where "gitShow e (path f) = Some buf"
      "toString Utf8 buf = Some (toString_utf8 buf)"
      "writePack_inline e f =
         \<lparr>l_inline_state = StateFull, l_encoding = Some Utf8,
          l_content = Some (toString_utf8 buf),
          l_content_sha = Some (sha256 e buf), l_meta = None\<rparr>"
  | buf where "gitShow e (path f) = Some buf" "toString Utf8 buf = None"
      "writePack_inline e f = thrown StateFull Utf8"
  | buf where "gitShow e (path f) = Some buf"
      "writePack_inline e f =
         \<lparr>l_inline_state = StatePreview, l_encoding = Some Utf8,
          l_content = Some (toString_utf8 (take PREVIEW_TEXT_BYTES buf)),
          l_content_sha = Some (sha256 e buf),
          l_meta = (if ext_of (path f) = ''json'' then jsonShapeHint e buf else None)\<rparr>"
  | buf where "gitShow e (path f) = Some buf"
      "toString Base64 buf = Some (toString_base64 buf)"
      "writePack_inline e f =
         \<lparr>l_inline_state = StateFull, l_encoding = Some Base64,
          l_content = Some (toString_base64 buf),
          l_content_sha = Some (sha256 e buf), l_meta = None\<rparr>"
  | buf where "gitShow e (path f) = Some buf" "toString Base64 buf = None"
      "writePack_inline e f = thrown StateFull Base64"
proof (cases "gitShow e (path f)")
  case None
  then have "writePack_inline e f = metadata_only"
    by (simp add: writePack_inline_def)
  then show ?thesis by (rule that(1))
next
  case (Some buf)
  show ?thesis
  proof (cases "ext_of (path f) \<in> set TEXT_EXT")
    case istext: True
    show ?thesis
    proof (cases "alwaysFullText (path f) \<or> fsize f \<le> INLINE_TEXT_BYTES")
      case True
      show ?thesis
      proof (cases buf rule: toString_utf8_cases)
        case 1
        with Some istext True show ?thesis
          by (intro that(3) [of buf]) (simp_all add: writePack_inline_def)
      next
        case 2
        with Some istext True show ?thesis
          by (intro that(2) [of buf]) (simp_all add: writePack_inline_def)
      qed
    next
      case False
      with Some istext show ?thesis
        by (intro that(4) [of buf])
          (simp_all add: writePack_inline_def preview_budget_positive toString_preview)
    qed
  next
    case isbin: False
    show ?thesis
    proof (cases "fsize f \<le> INLINE_BIN_BYTES")
      case True
      show ?thesis
      proof (cases buf rule: toString_base64_cases)
        case 1
        with Some isbin True show ?thesis
          by (intro that(6) [of buf]) (simp_all add: writePack_inline_def)
      next
        case 2
        with Some isbin True show ?thesis
          by (intro that(5) [of buf]) (simp_all add: writePack_inline_def)
      qed
    next
      case False
      with Some isbin have "writePack_inline e f = metadata_only"
        by (simp add: writePack_inline_def)
      then show ?thesis by (rule that(1))
    qed
  qed
qed

lemma shard_inline_cases
  [case_names metadata text_full text_thrown text_preview binary_full binary_thrown]:
  obtains "shard_inline e f = (metadata_only, 0)"
  | buf where "gitShow e (path f) = Some buf"
      "toString Utf8 buf = Some (toString_utf8 buf)"
      "shard_inline e f =
         (\<lparr>l_inline_state = StateFull, l_encoding = Some Utf8,
           l_content = Some (toString_utf8 buf),
           l_content_sha = Some (sha256 e buf), l_meta = None\<rparr>,
          length (toString_utf8 buf))"
  | buf where "gitShow e (path f) = Some buf" "toString Utf8 buf = None"
      "shard_inline e f = (thrown StateFull Utf8, 0)"
  | buf where "gitShow e (path f) = Some buf"
      "shard_inline e f =
         (\<lparr>l_inline_state = StatePreview, l_encoding = Some Utf8,
           l_content = Some (toString_utf8 (take PREVIEW_TEXT_BYTES buf)),
           l_content_sha = Some (sha256 e buf),
           l_meta = (if endsWith (toLowerCase (path f)) ''.json''
                     then jsonShapeHint e buf else None)\<rparr>,
          length (toString_utf8 (take PREVIEW_TEXT_BYTES buf)))"
  | buf where "gitShow e (path f) = Some buf"
      "toString Base64 buf = Some (toString_base64 buf)"
      "shard_inline e f =
         (\<lparr>l_inline_state = StateFull, l_encoding = Some Base64,
           l_content = Some (toString_base64 buf),
           l_content_sha = Some (sha256 e buf), l_meta = None\<rparr>,
          length (toString_base64 buf))"
  | buf where "gitShow e (path f) = Some buf" "toString Base64 buf = None"
      "shard_inline e f = (thrown StateFull Base64, 0)"
proof (cases "gitShow e (path f)")
  case None
  then have "shard_inline e f = (metadata_only, 0)"
    by (simp add: shard_inline_def)
  then show ?thesis by (rule that(1))
next
  case (Some buf)
  show ?thesis
  proof (cases "isTextPath (path f)")
    case istext: True
    show ?thesis
    proof (cases "alwaysFullText (path f) \<or> fsize f \<le> INLINE_TEXT_BYTES")
      case True
      show ?thesis
      proof (cases buf rule: toString_utf8_cases)
        case 1
        with Some istext True show ?thesis
          by (intro that(3) [of buf]) (simp_all add: shard_inline_def)
      next
        case 2
        with Some istext True show ?thesis
          by (intro that(2) [of buf]) (simp_all add: shard_inline_def)
      qed
    next
      case False
      with Some istext show ?thesis
        by (intro that(4) [of buf])
          (simp_all add: shard_inline_def preview_budget_positive toString_preview)
    qed
  next
    case isbin: False
    show ?thesis
    proof (cases "fsize f \<le> INLINE_BIN_BYTES")
      case True
      show ?thesis
      proof (cases buf rule: toString_base64_cases)
        case 1
        with Some isbin True show ?thesis
          by (intro that(6) [of buf]) (simp_all add: shard_inline_def)
      next
        case 2
        with Some isbin True show ?thesis
          by (intro that(5) [of buf]) (simp_all add: shard_inline_def)
      qed
    next
      case False
      with Some isbin have "shard_inline e f = (metadata_only, 0)"
        by (simp add: shard_inline_def)
      then show ?thesis by (rule that(1))
    qed
  qed
qed

text \<open>The same for an emitted item: how it was made, by the state it shows.\<close>

lemma emitted_item_cases
  [case_names metadata text_full text_preview binary_full thrown]:
  assumes "it \<in> set (pack_items e files outBase predicate) \<union> set (shard_items e files)"
  obtains f where "it = make_item f metadata_only"
  | f buf where "gitShow e (path f) = Some buf"
      "toString Utf8 buf = Some (toString_utf8 buf)"
      "it = make_item f
         \<lparr>l_inline_state = StateFull, l_encoding = Some Utf8,
          l_content = Some (toString_utf8 buf),
          l_content_sha = Some (sha256 e buf), l_meta = None\<rparr>"
  | f buf hint where "gitShow e (path f) = Some buf"
      "it = make_item f
         \<lparr>l_inline_state = StatePreview, l_encoding = Some Utf8,
          l_content = Some (toString_utf8 (take PREVIEW_TEXT_BYTES buf)),
          l_content_sha = Some (sha256 e buf), l_meta = hint\<rparr>"
  | f buf where "gitShow e (path f) = Some buf"
      "toString Base64 buf = Some (toString_base64 buf)"
      "it = make_item f
         \<lparr>l_inline_state = StateFull, l_encoding = Some Base64,
          l_content = Some (toString_base64 buf),
          l_content_sha = Some (sha256 e buf), l_meta = None\<rparr>"
  | f buf en where "gitShow e (path f) = Some buf" "toString en buf = None"
      "it = make_item f (thrown StateFull en)"
  using assms
proof (cases rule: emitted_item)
  case (1 f)
  show ?thesis
  proof (cases e f rule: writePack_inline_cases)
    case metadata
    with 1 show ?thesis by (intro that(1) [of f]) simp
  next
    case (text_full buf)
    with 1 show ?thesis by (intro that(2) [of f buf]) simp_all
  next
    case (text_thrown buf)
    with 1 show ?thesis by (intro that(5) [of f buf Utf8]) simp_all
  next
    case (text_preview buf)
    with 1 show ?thesis by (intro that(3) [of f buf]) simp_all
  next
    case (binary_full buf)
    with 1 show ?thesis by (intro that(4) [of f buf]) simp_all
  next
    case (binary_thrown buf)
    with 1 show ?thesis by (intro that(5) [of f buf Base64]) simp_all
  qed
next
  case (2 f)
  show ?thesis
  proof (cases e f rule: shard_inline_cases)
    case metadata
    with 2 show ?thesis by (intro that(1) [of f]) simp
  next
    case (text_full buf)
    with 2 show ?thesis by (intro that(2) [of f buf]) simp_all
  next
    case (text_thrown buf)
    with 2 show ?thesis by (intro that(5) [of f buf Utf8]) simp_all
  next
    case (text_preview buf)
    with 2 show ?thesis by (intro that(3) [of f buf]) simp_all
  next
    case (binary_full buf)
    with 2 show ?thesis by (intro that(4) [of f buf]) simp_all
  next
    case (binary_thrown buf)
    with 2 show ?thesis by (intro that(5) [of f buf Base64]) simp_all
  qed
qed

text \<open>
  Claim C3. An item with state preview, in a named pack or in a shard, carries the digest
  of the whole buffer read for its path, while its content is the decoded first
  \<open>PREVIEW_TEXT_BYTES\<close> bytes of that buffer.
\<close>

theorem preview_hash_of_whole_file:
  assumes "it \<in> set (pack_items e files outBase predicate) \<union> set (shard_items e files)"
    and "inline_state it = StatePreview"
  shows "\<exists>buf. gitShow e (path it) = Some buf \<and>
           content_sha256 it = Some (sha256 e buf) \<and>
           content it = Some (toString_utf8 (take PREVIEW_TEXT_BYTES buf))"
  using assms(1)
proof (cases rule: emitted_item_cases)
  case (text_preview f buf hint)
  then show ?thesis by (simp add: make_item_simps)
qed (use assms(2) in \<open>simp_all add: make_item_simps metadata_only_def thrown_def\<close>)

text \<open>
  Claim C5. The content of an item with state preview has at most \<open>PREVIEW_TEXT_BYTES\<close>,
  that is 65536, code units, and \<^verbatim>\<open>inline_bytes\<close> is that length.
\<close>

theorem preview_within_budget:
  assumes "it \<in> set (pack_items e files outBase predicate) \<union> set (shard_items e files)"
    and "inline_state it = StatePreview"
  shows "\<exists>c. content it = Some c \<and> length c \<le> PREVIEW_TEXT_BYTES \<and>
           inline_bytes it = Some (length c) \<and> PREVIEW_TEXT_BYTES = 65536"
  using assms(1)
proof (cases rule: emitted_item_cases)
  case (text_preview f buf hint)
  have "length (toString_utf8 (take PREVIEW_TEXT_BYTES buf)) \<le> PREVIEW_TEXT_BYTES"
    by (rule preview_length)
  moreover have "PREVIEW_TEXT_BYTES = 65536"
    by (simp add: PREVIEW_TEXT_BYTES_def)
  ultimately show ?thesis
    using text_preview by (simp add: make_item_simps)
qed (use assms(2) in \<open>simp_all add: make_item_simps metadata_only_def thrown_def\<close>)

subsection \<open>Items that show a state without content\<close>

text \<open>
  What the fields of an emitted item have to do with its state: nothing is carried with
  state none, an encoding and \<^verbatim>\<open>inline_bytes\<close> with any other state, content and digest with
  state preview, and content and digest go together.
\<close>

lemma item_fields_by_state:
  assumes "it \<in> set (pack_items e files outBase predicate) \<union> set (shard_items e files)"
  shows "(inline_state it = StateNone \<longrightarrow>
            encoding it = None \<and> content it = None \<and> content_sha256 it = None \<and>
            inline_bytes it = None \<and> json_hint it = None) \<and>
         (inline_state it \<noteq> StateNone \<longrightarrow> encoding it \<noteq> None \<and> inline_bytes it \<noteq> None) \<and>
         (inline_state it = StatePreview \<longrightarrow> content it \<noteq> None \<and> content_sha256 it \<noteq> None) \<and>
         (content it = None) = (content_sha256 it = None)"
  using assms
  by (cases rule: emitted_item_cases)
    (simp_all add: make_item_simps metadata_only_def thrown_def)

lemma path_huge: "path huge_file = ''docs/huge.md''"
  by (simp add: huge_file_def tree_record_def)

lemma gitShow_huge: "gitShow huge_env ''docs/huge.md'' = Some huge_md"
  by (simp add: gitShow_def huge_env_def)

lemma toString_huge: "toString Utf8 huge_md = None"
proof -
  have "toString_utf8 huge_md = map ucast huge_md"
    by (rule toString_utf8_ascii) (simp add: huge_md_def list_all_iff)
  then have "length (toString_utf8 huge_md) = Suc MAX_STRING_LENGTH"
    by (simp add: huge_md_def)
  then show ?thesis
    by (simp add: toString_def)
qed

lemma writePack_inline_huge: "writePack_inline huge_env huge_file = thrown StateFull Utf8"
  by (simp add: writePack_inline_def path_huge gitShow_huge toString_huge ext_of_def
      split_pop_def toLowerCase_def toLowerChar_def TEXT_EXT_def alwaysFullText_def
      ALWAYS_TEXT_FULL_PATHS_def startsWith_def)

lemma shard_inline_huge: "shard_inline huge_env huge_file = (thrown StateFull Utf8, 0)"
  by (simp add: shard_inline_def path_huge gitShow_huge toString_huge isTextPath_def ext_of_def
      split_pop_def toLowerCase_def toLowerChar_def TEXT_EXT_def alwaysFullText_def
      ALWAYS_TEXT_FULL_PATHS_def startsWith_def)

text \<open>
  Claim C6. An emitted item with state none has no encoding, no content and no digest, as
  lemma \<open>item_fields_by_state\<close> shows for every item. The converse fails: the sample Markdown file
  under \<^verbatim>\<open>docs/\<close> that is longer than the longest string is emitted, by both writers, with
  state full and an encoding, but with no content and no digest, and with \<^verbatim>\<open>inline_bytes\<close> 0.
\<close>

theorem full_item_without_content:
  "pack_items huge_env [huge_file] ''ai-pack-docs'' docs_predicate =
     [make_item huge_file (thrown StateFull Utf8)] \<and>
   shard_items huge_env [huge_file] = [make_item huge_file (thrown StateFull Utf8)] \<and>
   path (make_item huge_file (thrown StateFull Utf8)) = ''docs/huge.md'' \<and>
   inline_state (make_item huge_file (thrown StateFull Utf8)) = StateFull \<and>
   encoding (make_item huge_file (thrown StateFull Utf8)) = Some Utf8 \<and>
   inline_bytes (make_item huge_file (thrown StateFull Utf8)) = Some 0 \<and>
   content (make_item huge_file (thrown StateFull Utf8)) = None \<and>
   content_sha256 (make_item huge_file (thrown StateFull Utf8)) = None"
proof -
  have "pack_items huge_env [huge_file] ''ai-pack-docs'' docs_predicate =
      [make_item huge_file (thrown StateFull Utf8)]"
    by (simp add: pack_items_eq docs_predicate_def path_huge toLowerCase_def toLowerChar_def
        startsWith_def endsWith_def writePack_inline_huge)
  moreover have "shard_items huge_env [huge_file] =
      [make_item huge_file (thrown StateFull Utf8)]"
    by (simp add: shard_items_eq everything_subset_def path_huge startsWith_def
        shard_inline_huge)
  ultimately show ?thesis
    by (simp add: make_item_simps thrown_def path_huge)
qed

subsection \<open>The sample files as items\<close>

lemma path_json: "path json_file = ''data/big.json''"
  by (simp add: json_file_def tree_record_def)

lemma gitShow_json: "gitShow sample_env ''data/big.json'' = Some sample_json"
  by (simp add: gitShow_def sample_env_def)

lemma toString_sample_json: "toString_utf8 sample_json = map ucast sample_json"
  by (rule toString_utf8_ascii) (simp add: sample_json_def list_all_iff)

lemma writePack_inline_json:
  "writePack_inline sample_env json_file =
     \<lparr>l_inline_state = StatePreview, l_encoding = Some Utf8,
      l_content = Some (toString_utf8 (take PREVIEW_TEXT_BYTES sample_json)),
      l_content_sha = Some (sha256 sample_env sample_json),
      l_meta = jsonShapeHint sample_env sample_json\<rparr>"
  by (simp add: writePack_inline_def path_json gitShow_json ext_of_def split_pop_def
      toLowerCase_def toLowerChar_def TEXT_EXT_def alwaysFullText_def
      ALWAYS_TEXT_FULL_PATHS_def startsWith_def preview_budget_positive toString_preview
      Let_def)
    (simp add: json_file_def tree_record_def INLINE_TEXT_BYTES_def)

lemma pack_items_json:
  "pack_items sample_env [json_file] ''ai-pack-data-config'' data_config_predicate =
     [make_item json_file (writePack_inline sample_env json_file)]"
  by (simp add: pack_items_eq data_config_predicate_def path_json toLowerCase_def
      toLowerChar_def startsWith_def endsWith_def)

theorem preview_hash_of_whole_file_witness:
  "hd (pack_items sample_env [json_file] ''ai-pack-data-config'' data_config_predicate) \<in>
     set (pack_items sample_env [json_file] ''ai-pack-data-config'' data_config_predicate) \<and>
   inline_state
     (hd (pack_items sample_env [json_file] ''ai-pack-data-config'' data_config_predicate)) =
     StatePreview \<and>
   content_sha256
     (hd (pack_items sample_env [json_file] ''ai-pack-data-config'' data_config_predicate)) =
     Some (sha256 sample_env sample_json) \<and>
   sha256 sample_env sample_json = ''700000'' \<and>
   sha256 sample_env (take PREVIEW_TEXT_BYTES sample_json) = ''65536''"
proof -
  let ?it = "hd (pack_items sample_env [json_file] ''ai-pack-data-config''
    data_config_predicate)"
  have mem: "?it \<in> set (pack_items sample_env [json_file] ''ai-pack-data-config''
      data_config_predicate) \<union> set (shard_items sample_env [json_file])"
    by (simp add: pack_items_json)
  have st: "inline_state ?it = StatePreview"
    by (simp add: pack_items_json make_item_simps writePack_inline_json)
  have p: "path ?it = ''data/big.json''"
    by (simp add: pack_items_json make_item_simps path_json)
  from preview_hash_of_whole_file [OF mem st] obtain buf where
    "gitShow sample_env (path ?it) = Some buf" and
    sha: "content_sha256 ?it = Some (sha256 sample_env buf)"
    by blast
  then have "buf = sample_json"
    by (simp add: p gitShow_json)
  with sha have "content_sha256 ?it = Some (sha256 sample_env sample_json)"
    by simp
  moreover have "sha256 sample_env sample_json = ''700000''"
    by (simp add: sha256_def sample_env_def sample_json_def decimal.simps)
  moreover have "sha256 sample_env (take PREVIEW_TEXT_BYTES sample_json) = ''65536''"
    by (simp add: sha256_def sample_env_def sample_json_def PREVIEW_TEXT_BYTES_def
        decimal.simps)
  ultimately show ?thesis
    using st by (simp add: pack_items_json)
qed

theorem preview_within_budget_witness:
  "hd (pack_items sample_env [json_file] ''ai-pack-data-config'' data_config_predicate) \<in>
     set (pack_items sample_env [json_file] ''ai-pack-data-config'' data_config_predicate) \<and>
   inline_state
     (hd (pack_items sample_env [json_file] ''ai-pack-data-config'' data_config_predicate)) =
     StatePreview \<and>
   length (the (content
     (hd (pack_items sample_env [json_file] ''ai-pack-data-config'' data_config_predicate))))
     \<le> 65536"
proof -
  let ?it = "hd (pack_items sample_env [json_file] ''ai-pack-data-config''
    data_config_predicate)"
  have mem: "?it \<in> set (pack_items sample_env [json_file] ''ai-pack-data-config''
      data_config_predicate) \<union> set (shard_items sample_env [json_file])"
    by (simp add: pack_items_json)
  have st: "inline_state ?it = StatePreview"
    by (simp add: pack_items_json make_item_simps writePack_inline_json)
  from preview_within_budget [OF mem st] obtain c where
    "content ?it = Some c" and "length c \<le> PREVIEW_TEXT_BYTES" and
    "PREVIEW_TEXT_BYTES = 65536"
    by blast
  then have "length (the (content ?it)) \<le> 65536"
    by simp
  with st show ?thesis
    by (simp add: pack_items_json)
qed

subsection \<open>Base64 decodes back to the buffer\<close>

lemma unat_of_nat16: "m < 65536 \<Longrightarrow> unat (word_of_nat m :: 16 word) = m"
  by (simp add: unat_of_nat)

lemma b64_char_unat:
  assumes "n < 64"
  shows "unat (b64_char n) =
     (if n < 26 then 65 + n else if n < 52 then 97 + (n - 26)
      else if n < 62 then 48 + (n - 52) else if n = 62 then 43 else 47)"
proof -
  have "unat (word_of_nat (65 + n) :: 16 word) = 65 + n"
    using assms by (intro unat_of_nat16) simp
  moreover have "unat (word_of_nat (97 + (n - 26)) :: 16 word) = 97 + (n - 26)"
    using assms by (intro unat_of_nat16) simp
  moreover have "unat (word_of_nat (48 + (n - 52)) :: 16 word) = 48 + (n - 52)"
    using assms by (intro unat_of_nat16) simp
  ultimately show ?thesis
    unfolding b64_char_def by (simp only: if_distrib [of unat] unsigned_numeral) simp
qed

lemma b64_value_char: "n < 64 \<Longrightarrow> b64_value (b64_char n) = Some n"
  unfolding b64_value_def Let_def by (simp only: b64_char_unat) (simp, arith)

lemma b64_value_pad: "b64_value b64_pad = None"
  by (simp add: b64_value_def b64_pad_def)

lemma b64_char_not_pad: "n < 64 \<Longrightarrow> b64_char n \<noteq> b64_pad"
  using b64_value_char [of n] b64_value_pad by auto

lemma sextets:
  fixes a b c :: nat
  assumes "a < 256" and "b < 256" and "c < 256"
  shows "a div 4 < 64" and "a mod 4 * 16 + b div 16 < 64" and "b mod 16 * 4 + c div 64 < 64"
    and "c mod 64 < 64" and "a mod 4 * 16 < 64" and "b mod 16 * 4 < 64"
  using assms by simp_all

lemma high_part:
  fixes q r m :: nat
  assumes "r < m"
  shows "(q * m + r) div m = q" and "(q * m + r) mod m = r"
  using assms by simp_all

lemma sextets_back:
  fixes a b c :: nat
  assumes "a < 256" and "b < 256" and "c < 256"
  shows "a div 4 * 4 + (a mod 4 * 16 + b div 16) div 16 = a"
    and "(a mod 4 * 16 + b div 16) mod 16 * 16 + (b mod 16 * 4 + c div 64) div 4 = b"
    and "(b mod 16 * 4 + c div 64) mod 4 * 64 + c mod 64 = c"
    and "a div 4 * 4 + (a mod 4 * 16) div 16 = a"
    and "(a mod 4 * 16 + b div 16) mod 16 * 16 + (b mod 16 * 4) div 4 = b"
proof -
  have b16: "b div 16 < 16" and c64: "c div 64 < 4"
    using assms by simp_all
  show "a div 4 * 4 + (a mod 4 * 16 + b div 16) div 16 = a"
    by (simp add: high_part(1) [OF b16])
  show "(a mod 4 * 16 + b div 16) mod 16 * 16 + (b mod 16 * 4 + c div 64) div 4 = b"
    by (simp add: high_part(2) [OF b16] high_part(1) [OF c64] mod_less [OF b16])
  show "(b mod 16 * 4 + c div 64) mod 4 * 64 + c mod 64 = c"
    by (simp add: high_part(2) [OF c64] mod_less [OF c64])
  show "a div 4 * 4 + (a mod 4 * 16) div 16 = a"
    by simp
  show "(a mod 4 * 16 + b div 16) mod 16 * 16 + (b mod 16 * 4) div 4 = b"
    by (simp add: high_part(2) [OF b16] mod_less [OF b16])
qed

lemma b64_roundtrip:
  "list_all (\<lambda>b. b < 256) bs \<Longrightarrow> b64_decode (b64_encode bs) = Some bs"
proof (induction bs rule: b64_encode.induct)
  case 1
  show ?case by simp
next
  case (2 a)
  then have a: "a < 256" by simp
  show ?case
    using sextets [OF a a a] sextets_back [OF a a a]
    by (simp add: b64_value_char)
next
  case (3 a b)
  then have a: "a < 256" and b: "b < 256" by simp_all
  show ?case
    using sextets [OF a b b] sextets_back [OF a b b]
    by (simp add: b64_value_char b64_char_not_pad)
next
  case (4 a b c rest)
  then have a: "a < 256" and b: "b < 256" and c: "c < 256"
    and rest: "b64_decode (b64_encode rest) = Some rest"
    by simp_all
  show ?case
    using sextets [OF a b c] sextets_back [OF a b c]
    by (simp add: b64_value_char b64_char_not_pad rest)
qed

lemma fromBase64_toString: "fromBase64 (toString_base64 buf) = Some buf"
proof -
  have "list_all (\<lambda>b. b < 256) (map unat buf)"
  proof (simp add: list_all_iff, rule ballI)
    fix w :: byte
    have "unat w < 2 ^ LENGTH(8)" by (rule unsigned_less)
    then show "unat w < 256" by simp
  qed
  then have "b64_decode (b64_encode (map unat buf)) = Some (map unat buf)"
    by (rule b64_roundtrip)
  then show ?thesis
    by (simp add: fromBase64_def toString_base64_def comp_def)
qed

subsection \<open>Well-formed text keeps its length in bytes\<close>

lemma mod_offset:
  fixes b q m :: nat
  assumes "q * m \<le> b" and "b < q * m + m"
  shows "b mod m = b - q * m"
proof -
  have "b = q * m + (b - q * m)" using assms by simp
  then have "b mod m = (q * m + (b - q * m)) mod m" by simp
  also have "\<dots> = (b - q * m) mod m" by simp
  also have "\<dots> = b - q * m" using assms by simp
  finally show ?thesis .
qed

lemma lead_mod:
  fixes b :: nat
  shows "0xC2 \<le> b \<Longrightarrow> b \<le> 0xDF \<Longrightarrow> b mod 32 = b - 192"
    and "0xE0 \<le> b \<Longrightarrow> b \<le> 0xEF \<Longrightarrow> b mod 16 = b - 224"
    and "0xF0 \<le> b \<Longrightarrow> b \<le> 0xF4 \<Longrightarrow> b mod 8 = b - 240"
    and "0x80 \<le> b \<Longrightarrow> b \<le> 0xBF \<Longrightarrow> b mod 64 = b - 128"
  using mod_offset [of 6 32 b] mod_offset [of 14 16 b] mod_offset [of 30 8 b]
    mod_offset [of 2 64 b]
  by simp_all

lemma decode_one:
  "b \<le> 0x7F \<Longrightarrow> utf8_decode utf8_init (b # r) = b # utf8_decode utf8_init r"
  by (simp add: utf8_lead_def bytes_needed_init)

lemma decode_two:
  assumes "0xC2 \<le> b" "b \<le> 0xDF" "0x80 \<le> c" "c \<le> 0xBF"
  shows "utf8_decode utf8_init (b # c # r) =
     (b mod 32 * 64 + c mod 64) # utf8_decode utf8_init r"
proof -
  let ?st = "utf8_init\<lparr>code_point := b mod 32, bytes_needed := 1\<rparr>"
  have lead: "utf8_lead b = ([], ?st)"
    using assms by (simp add: utf8_lead_def)
  have "utf8_decode utf8_init (b # c # r) = utf8_decode ?st (c # r)"
    by (simp add: bytes_needed_init lead)
  also have "\<dots> = (b mod 32 * 64 + c mod 64) # utf8_decode utf8_init r"
    using assms by (simp add: utf8_init_def Let_def)
  finally show ?thesis .
qed

lemma decode_continue:
  assumes "lower_boundary st \<le> c" "c \<le> upper_boundary st" "1 < bytes_needed st"
  shows "utf8_decode st (c # r) =
     utf8_decode (utf8_init\<lparr>code_point := code_point st * 64 + c mod 64,
                            bytes_needed := bytes_needed st - 1\<rparr>) r"
  using assms by (simp add: Let_def)

lemma decode_last:
  assumes "lower_boundary st \<le> c" "c \<le> upper_boundary st" "bytes_needed st = 1"
  shows "utf8_decode st (c # r) = (code_point st * 64 + c mod 64) # utf8_decode utf8_init r"
  using assms by (simp add: Let_def)

lemma decode_three:
  assumes "0xE0 \<le> b" "b \<le> 0xEF"
    "(if b = 0xE0 then 0xA0 else 0x80) \<le> c1" "c1 \<le> (if b = 0xED then 0x9F else 0xBF)"
    "0x80 \<le> c2" "c2 \<le> 0xBF"
  shows "utf8_decode utf8_init (b # c1 # c2 # r) =
     ((b mod 16 * 64 + c1 mod 64) * 64 + c2 mod 64) # utf8_decode utf8_init r"
proof -
  let ?st = "utf8_init\<lparr>code_point := b mod 16, bytes_needed := 2,
                         lower_boundary := (if b = 0xE0 then 0xA0 else 0x80),
                         upper_boundary := (if b = 0xED then 0x9F else 0xBF)\<rparr>"
  let ?st2 = "utf8_init\<lparr>code_point := b mod 16 * 64 + c1 mod 64, bytes_needed := 1\<rparr>"
  have lead: "utf8_lead b = ([], ?st)"
    using assms(1,2) by (simp add: utf8_lead_def)
  have "utf8_decode utf8_init (b # c1 # c2 # r) = utf8_decode ?st (c1 # c2 # r)"
    by (simp add: bytes_needed_init lead)
  also have "\<dots> = utf8_decode ?st2 (c2 # r)"
    using assms(3,4) by (subst decode_continue) simp_all
  also have "\<dots> = ((b mod 16 * 64 + c1 mod 64) * 64 + c2 mod 64) # utf8_decode utf8_init r"
    using assms(5,6) by (subst decode_last) (simp_all add: utf8_init_def)
  finally show ?thesis .
qed

lemma decode_four:
  assumes "0xF0 \<le> b" "b \<le> 0xF4"
    "(if b = 0xF0 then 0x90 else 0x80) \<le> c1" "c1 \<le> (if b = 0xF4 then 0x8F else 0xBF)"
    "0x80 \<le> c2" "c2 \<le> 0xBF" "0x80 \<le> c3" "c3 \<le> 0xBF"
  shows "utf8_decode utf8_init (b # c1 # c2 # c3 # r) =
     (((b mod 8 * 64 + c1 mod 64) * 64 + c2 mod 64) * 64 + c3 mod 64) #
       utf8_decode utf8_init r"
proof -
  let ?st = "utf8_init\<lparr>code_point := b mod 8, bytes_needed := 3,
                         lower_boundary := (if b = 0xF0 then 0x90 else 0x80),
                         upper_boundary := (if b = 0xF4 then 0x8F else 0xBF)\<rparr>"
  let ?st2 = "utf8_init\<lparr>code_point := b mod 8 * 64 + c1 mod 64, bytes_needed := 2\<rparr>"
  let ?st3 = "utf8_init\<lparr>code_point := (b mod 8 * 64 + c1 mod 64) * 64 + c2 mod 64,
                          bytes_needed := 1\<rparr>"
  have lead: "utf8_lead b = ([], ?st)"
    using assms(1,2) by (simp add: utf8_lead_def)
  have "utf8_decode utf8_init (b # c1 # c2 # c3 # r) = utf8_decode ?st (c1 # c2 # c3 # r)"
    by (simp add: bytes_needed_init lead)
  also have "\<dots> = utf8_decode ?st2 (c2 # c3 # r)"
    using assms(3,4) by (subst decode_continue) simp_all
  also have "\<dots> = utf8_decode ?st3 (c3 # r)"
    using assms(5,6) by (subst decode_continue) (simp_all add: utf8_init_def)
  also have "\<dots> = (((b mod 8 * 64 + c1 mod 64) * 64 + c2 mod 64) * 64 + c3 mod 64) #
      utf8_decode utf8_init r"
    using assms(7,8) by (subst decode_last) (simp_all add: utf8_init_def)
  finally show ?thesis .
qed

lemma units_bmp: "cp < 0x10000 \<Longrightarrow> map unat (utf16_units cp) = [cp]"
  by (simp add: utf16_units_def unat_of_nat16)

lemma units_pair:
  assumes "0x10000 \<le> cp" "cp \<le> 0x10FFFF"
  shows "map unat (utf16_units cp) =
     [0xD800 + (cp - 0x10000) div 1024, 0xDC00 + (cp - 0x10000) mod 1024]"
proof -
  have "(cp - 0x10000) div 1024 < 1024" using assms by simp
  then have hi: "0xD800 + (cp - 0x10000) div 1024 < 65536" by simp
  have "(cp - 0x10000) mod 1024 < 1024" by simp
  then have lo: "0xDC00 + (cp - 0x10000) mod 1024 < 65536" by simp
  show ?thesis
    using assms(1) unat_of_nat16 [OF hi] unat_of_nat16 [OF lo]
    by (simp add: utf16_units_def)
qed

lemma utf8_bytes_single:
  assumes "u < 0xD800 \<or> 0xDBFF < u"
  shows "utf8_bytes (u # us) = unit_bytes u + utf8_bytes us"
  using assms by (cases us) auto

lemma utf8_bytes_pair:
  assumes "0xD800 \<le> h" "h \<le> 0xDBFF" "0xDC00 \<le> l" "l \<le> 0xDFFF"
  shows "utf8_bytes (h # l # us) = 4 + utf8_bytes us"
  using assms by simp

text \<open>The bytes that the code units of one decoded scalar value take.\<close>

lemma scalar_bytes:
  "cp < 0x80 \<Longrightarrow>
     utf8_bytes (map unat (utf16_units cp) @ us) = 1 + utf8_bytes us"
  "0x80 \<le> cp \<Longrightarrow> cp < 0x800 \<Longrightarrow>
     utf8_bytes (map unat (utf16_units cp) @ us) = 2 + utf8_bytes us"
  "0x800 \<le> cp \<Longrightarrow> cp < 0x10000 \<Longrightarrow> cp < 0xD800 \<or> 0xDFFF < cp \<Longrightarrow>
     utf8_bytes (map unat (utf16_units cp) @ us) = 3 + utf8_bytes us"
  "0x10000 \<le> cp \<Longrightarrow> cp \<le> 0x10FFFF \<Longrightarrow>
     utf8_bytes (map unat (utf16_units cp) @ us) = 4 + utf8_bytes us"
proof -
  show "utf8_bytes (map unat (utf16_units cp) @ us) = 1 + utf8_bytes us" if "cp < 0x80"
    using that by (simp add: units_bmp utf8_bytes_single unit_bytes_def)
  show "utf8_bytes (map unat (utf16_units cp) @ us) = 2 + utf8_bytes us"
    if "0x80 \<le> cp" "cp < 0x800"
    using that by (simp add: units_bmp utf8_bytes_single unit_bytes_def)
  show "utf8_bytes (map unat (utf16_units cp) @ us) = 3 + utf8_bytes us"
    if "0x800 \<le> cp" "cp < 0x10000" "cp < 0xD800 \<or> 0xDFFF < cp"
    using that by (auto simp add: units_bmp utf8_bytes_single unit_bytes_def)
  show "utf8_bytes (map unat (utf16_units cp) @ us) = 4 + utf8_bytes us"
    if "0x10000 \<le> cp" "cp \<le> 0x10FFFF"
  proof -
    let ?h = "0xD800 + (cp - 0x10000) div 1024"
    let ?l = "0xDC00 + (cp - 0x10000) mod 1024"
    have "(cp - 0x10000) div 1024 < 1024" using that by simp
    then have h: "0xD800 \<le> ?h" "?h \<le> 0xDBFF" by simp_all
    have "(cp - 0x10000) mod 1024 < 1024" by simp
    then have l: "0xDC00 \<le> ?l" "?l \<le> 0xDFFF" by simp_all
    have "utf8_bytes (?h # ?l # us) = 4 + utf8_bytes us"
      using h l by (rule utf8_bytes_pair)
    then show ?thesis
      by (simp only: units_pair [OF that] append_Cons append_Nil)
  qed
qed

lemma decoded_cons:
  "map unat (concat (map utf16_units (cp # cps))) =
     map unat (utf16_units cp) @ map unat (concat (map utf16_units cps))"
  by simp

lemma well_formed_bytes:
  "well_formed_utf8 bs \<Longrightarrow>
     utf8_bytes (map unat (concat (map utf16_units (utf8_decode utf8_init bs)))) = length bs"
proof (induction rule: well_formed_utf8.induct)
  case wf_empty
  show ?case by (simp add: bytes_needed_init)
next
  case (wf_one b r)
  from wf_one(1) have "b < 0x80" by simp
  then show ?case
    by (simp only: decode_one [OF wf_one(1)] decoded_cons scalar_bytes(1) wf_one.IH) simp
next
  case (wf_two b c r)
  let ?cp = "b mod 32 * 64 + c mod 64"
  have cp: "?cp = (b - 192) * 64 + (c - 128)"
    using wf_two by (simp add: lead_mod)
  have "0x80 \<le> ?cp" and "?cp < 0x800"
    unfolding cp using wf_two(1-4) by simp_all
  then show ?case
    by (simp only: decode_two [OF wf_two(1-4)] decoded_cons scalar_bytes(2) wf_two.IH) simp
next
  case (wf_three b c1 c2 r)
  let ?cp = "(b mod 16 * 64 + c1 mod 64) * 64 + c2 mod 64"
  have c1: "0x80 \<le> c1" "c1 \<le> 0xBF"
    using wf_three(3,4) by (simp_all split: if_splits)
  have cp: "?cp = ((b - 224) * 64 + (c1 - 128)) * 64 + (c2 - 128)"
    using wf_three(1,2,5,6) c1 by (simp add: lead_mod)
  have lo: "0x800 \<le> ?cp"
    unfolding cp using wf_three(1-6) by (simp split: if_splits)
  have hi: "?cp < 0x10000"
    unfolding cp using wf_three(1,2,5,6) c1 by simp
  have ns: "?cp < 0xD800 \<or> 0xDFFF < ?cp"
  proof -
    define k x y where "k = b - 224" and "x = c1 - 128" and "y = c2 - 128"
    have eq: "?cp = (k * 64 + x) * 64 + y"
      by (simp only: cp k_def x_def y_def)
    have xy: "x \<le> 63" "y \<le> 63"
      using c1 wf_three(5,6) by (simp_all add: x_def y_def)
    consider "b < 0xED" | "b = 0xED" | "0xED < b" by linarith
    then show ?thesis
    proof cases
      case 1
      then have "k \<le> 12" by (simp add: k_def)
      with xy show ?thesis unfolding eq by simp
    next
      case 2
      then have "k = 13" and "x \<le> 31"
        using wf_three(4) by (simp_all add: k_def x_def)
      with xy show ?thesis unfolding eq by simp
    next
      case 3
      then have "14 \<le> k" by (simp add: k_def)
      then show ?thesis unfolding eq by simp
    qed
  qed
  show ?case
    by (simp only: decode_three [OF wf_three(1-6)] decoded_cons scalar_bytes(3) [OF lo hi ns]
        wf_three.IH) simp
next
  case (wf_four b c1 c2 c3 r)
  let ?cp = "((b mod 8 * 64 + c1 mod 64) * 64 + c2 mod 64) * 64 + c3 mod 64"
  have c1: "0x80 \<le> c1" "c1 \<le> 0xBF"
    using wf_four(3,4) by (simp_all split: if_splits)
  have cp: "?cp = (((b - 240) * 64 + (c1 - 128)) * 64 + (c2 - 128)) * 64 + (c3 - 128)"
    using wf_four(1,2,5-8) c1 by (simp add: lead_mod)
  have lo: "0x10000 \<le> ?cp"
    unfolding cp using wf_four(1-8) by (simp split: if_splits)
  have hi: "?cp \<le> 0x10FFFF"
    unfolding cp using wf_four(1-8) c1 by (simp split: if_splits)
  show ?case
    by (simp only: decode_four [OF wf_four(1-8)] decoded_cons scalar_bytes(4) [OF lo hi]
        wf_four.IH) simp
qed

lemma byteLength_well_formed:
  "well_formed_utf8 (map unat buf) \<Longrightarrow> byteLength_utf8 (toString_utf8 buf) = length buf"
  using well_formed_bytes [of "map unat buf"]
  by (simp add: byteLength_utf8_def toString_utf8_def)

subsection \<open>Items embedded in full\<close>

text \<open>
  An item with state full lacks its content exactly when the buffer read for its path does
  not fit in a string in the encoding chosen for it.
\<close>

lemma content_absent_when_too_long:
  assumes "it \<in> set (pack_items e files outBase predicate) \<union> set (shard_items e files)"
    and "inline_state it = StateFull"
  shows "(content it = None) =
           (\<exists>buf en. gitShow e (path it) = Some buf \<and> encoding it = Some en \<and>
              toString en buf = None)"
  using assms(1)
proof (cases rule: emitted_item_cases)
  case (thrown f buf en)
  then have "gitShow e (path it) = Some buf \<and> encoding it = Some en \<and> toString en buf = None"
    by (simp add: make_item_simps thrown_def)
  moreover from thrown have "content it = None"
    by (simp add: make_item_simps thrown_def)
  ultimately show ?thesis
    by blast
qed (use assms(2) in \<open>auto simp add: make_item_simps metadata_only_def\<close>)

text \<open>
  Claim C4, as amended. An item with state full that carries content carries the digest
  of the whole buffer read for its path. The content of a binary file is base64 that
  decodes back to exactly that buffer. The content of a text file is the decoded buffer:
  when the buffer is well-formed UTF-8 the content takes, written as UTF-8, as many bytes
  as the file has; it has at most as many code units as the file has bytes and, when
  every byte is ASCII, it is the buffer byte for byte.
\<close>

theorem full_item_content:
  assumes "it \<in> set (pack_items e files outBase predicate) \<union> set (shard_items e files)"
    and "inline_state it = StateFull"
    and "content it = Some c"
  shows "\<exists>buf. gitShow e (path it) = Some buf \<and>
           content_sha256 it = Some (sha256 e buf) \<and>
           (encoding it = Some Base64 \<and> fromBase64 c = Some buf \<or>
            encoding it = Some Utf8 \<and> c = toString_utf8 buf \<and>
              (well_formed_utf8 (map unat buf) \<longrightarrow> byteLength_utf8 c = length buf) \<and>
              length c \<le> length buf \<and>
              (list_all (\<lambda>b. b < 0x80) buf \<longrightarrow> c = map ucast buf \<and> length c = length buf))"
  using assms(1)
proof (cases rule: emitted_item_cases)
  case (text_full f buf)
  have "byteLength_utf8 (toString_utf8 buf) = length buf"
    if "well_formed_utf8 (map unat buf)"
    using that by (rule byteLength_well_formed)
  moreover have "toString_utf8 buf = map ucast buf \<and> length (toString_utf8 buf) = length buf"
    if "list_all (\<lambda>b. b < 0x80) buf"
    using that by (simp add: toString_utf8_ascii)
  moreover have "gitShow e (path it) = Some buf"
    and "content_sha256 it = Some (sha256 e buf)"
    and "c = toString_utf8 buf" and "encoding it = Some Utf8"
    using text_full assms(3) by (simp_all add: make_item_simps)
  ultimately show ?thesis
    using toString_utf8_length [of buf] by blast
next
  case (binary_full f buf)
  then have "gitShow e (path it) = Some buf"
    and "content_sha256 it = Some (sha256 e buf)"
    and "c = toString_base64 buf" and "encoding it = Some Base64"
    using assms(3) by (simp_all add: make_item_simps)
  with fromBase64_toString [of buf] show ?thesis
    by blast
qed (use assms(2,3) in \<open>simp_all add: make_item_simps metadata_only_def thrown_def\<close>)

lemma path_notes: "path notes_file = ''notes.txt''"
  by (simp add: notes_file_def tree_record_def)

lemma gitShow_notes: "gitShow sample_env ''notes.txt'' = Some sample_notes"
  by (simp add: gitShow_def sample_env_def)

lemma well_formed_notes: "well_formed_utf8 (map unat sample_notes)"
proof -
  have "well_formed_utf8 [0xC3, 0xA9, 0xF0, 0x9F, 0x98, 0x80]"
    by (intro wf_two wf_four wf_empty) simp_all
  then show ?thesis by (simp add: sample_notes_def)
qed

lemma toString_notes: "toString_utf8 sample_notes = [0xE9, 0xD83D, 0xDE00]"
  by (simp add: toString_utf8_def sample_notes_def utf8_lead_def utf8_init_def
      utf16_units_def)

lemma shard_items_notes:
  "shard_items sample_env [notes_file] =
     [make_item notes_file
        \<lparr>l_inline_state = StateFull, l_encoding = Some Utf8,
         l_content = Some [0xE9, 0xD83D, 0xDE00],
         l_content_sha = Some (sha256 sample_env sample_notes), l_meta = None\<rparr>]"
proof -
  have "toString Utf8 sample_notes = Some [0xE9, 0xD83D, 0xDE00]"
    by (simp add: toString_def toString_notes MAX_STRING_LENGTH_def)
  then have "shard_inline sample_env notes_file =
      (\<lparr>l_inline_state = StateFull, l_encoding = Some Utf8,
        l_content = Some [0xE9, 0xD83D, 0xDE00],
        l_content_sha = Some (sha256 sample_env sample_notes), l_meta = None\<rparr>, 3)"
    by (simp add: shard_inline_def path_notes gitShow_notes isTextPath_def ext_of_def
        split_pop_def toLowerCase_def toLowerChar_def TEXT_EXT_def alwaysFullText_def
        ALWAYS_TEXT_FULL_PATHS_def startsWith_def)
      (simp add: notes_file_def tree_record_def INLINE_TEXT_BYTES_def)
  then show ?thesis
    by (simp add: shard_items_eq everything_subset_def path_notes startsWith_def)
qed

lemma list_all_sample_md: "list_all (\<lambda>b. b < 0x80) sample_md"
  by (simp add: sample_md_def list_all_iff)

lemma gitShow_md: "gitShow sample_env ''docs/big.md'' = Some sample_md"
  by (simp add: gitShow_def sample_env_def)

lemma shard_items_md:
  "shard_items sample_env [md_file] =
     [make_item md_file
        \<lparr>l_inline_state = StateFull, l_encoding = Some Utf8,
         l_content = Some (replicate 4194304 0x41),
         l_content_sha = Some (sha256 sample_env sample_md), l_meta = None\<rparr>]"
  by (simp add: shard_items_eq everything_subset_def path_md startsWith_def shard_inline_md)

theorem full_item_content_witness:
  "(hd (shard_items sample_env [notes_file]) \<in> set (shard_items sample_env [notes_file]) \<and>
    inline_state (hd (shard_items sample_env [notes_file])) = StateFull \<and>
    content (hd (shard_items sample_env [notes_file])) = Some [0xE9, 0xD83D, 0xDE00] \<and>
    encoding (hd (shard_items sample_env [notes_file])) = Some Utf8 \<and>
    gitShow sample_env (path (hd (shard_items sample_env [notes_file]))) = Some sample_notes \<and>
    well_formed_utf8 (map unat sample_notes) \<and>
    content_sha256 (hd (shard_items sample_env [notes_file])) =
      Some (sha256 sample_env sample_notes) \<and>
    byteLength_utf8 [0xE9, 0xD83D, 0xDE00] = length sample_notes \<and>
    length sample_notes = 6 \<and>
    fsize (hd (shard_items sample_env [notes_file])) = 6) \<and>
   (hd (shard_items sample_env [md_file]) \<in> set (shard_items sample_env [md_file]) \<and>
    inline_state (hd (shard_items sample_env [md_file])) = StateFull \<and>
    content (hd (shard_items sample_env [md_file])) = Some (replicate 4194304 0x41) \<and>
    encoding (hd (shard_items sample_env [md_file])) = Some Utf8 \<and>
    gitShow sample_env (path (hd (shard_items sample_env [md_file]))) = Some sample_md \<and>
    list_all (\<lambda>b. b < 0x80) sample_md \<and>
    content_sha256 (hd (shard_items sample_env [md_file])) =
      Some (sha256 sample_env sample_md) \<and>
    replicate 4194304 0x41 = (map ucast sample_md :: jsstring) \<and>
    length (replicate 4194304 0x41 :: jsstring) = length sample_md \<and>
    fsize (hd (shard_items sample_env [md_file])) = 4194304)"
proof -
  let ?it = "hd (shard_items sample_env [notes_file])"
  have mem: "?it \<in> set (pack_items sample_env [notes_file] [] core_predicate) \<union>
      set (shard_items sample_env [notes_file])"
    by (simp add: shard_items_notes)
  have st: "inline_state ?it = StateFull"
    by (simp add: shard_items_notes make_item_simps)
  have c: "content ?it = Some [0xE9, 0xD83D, 0xDE00]"
    by (simp add: shard_items_notes make_item_simps)
  have p: "gitShow sample_env (path ?it) = Some sample_notes"
    by (simp add: shard_items_notes make_item_simps path_notes gitShow_notes)
  have en: "encoding ?it = Some Utf8"
    by (simp add: shard_items_notes make_item_simps)
  from full_item_content [OF mem st c] p en well_formed_notes
  have "content_sha256 ?it = Some (sha256 sample_env sample_notes) \<and>
      byteLength_utf8 [0xE9, 0xD83D, 0xDE00] = length sample_notes"
    by auto
  moreover have "length sample_notes = 6"
    by (simp add: sample_notes_def)
  moreover have "fsize notes_file = 6"
    by (simp add: notes_file_def tree_record_def)
  then have "fsize ?it = 6"
    by (simp add: shard_items_notes make_item_simps)
  ultimately have inst_notes: "?it \<in> set (shard_items sample_env [notes_file]) \<and>
      inline_state ?it = StateFull \<and> content ?it = Some [0xE9, 0xD83D, 0xDE00] \<and>
      encoding ?it = Some Utf8 \<and> gitShow sample_env (path ?it) = Some sample_notes \<and>
      well_formed_utf8 (map unat sample_notes) \<and>
      content_sha256 ?it = Some (sha256 sample_env sample_notes) \<and>
      byteLength_utf8 [0xE9, 0xD83D, 0xDE00] = length sample_notes \<and>
      length sample_notes = 6 \<and> fsize ?it = 6"
    using st c p en well_formed_notes by (simp add: shard_items_notes)
  let ?md = "hd (shard_items sample_env [md_file])"
  have mem': "?md \<in> set (pack_items sample_env [md_file] [] core_predicate) \<union>
      set (shard_items sample_env [md_file])"
    by (simp add: shard_items_md)
  have inm: "?md \<in> set (shard_items sample_env [md_file])"
    by (simp add: shard_items_md)
  have st': "inline_state ?md = StateFull"
    by (simp add: shard_items_md make_item_simps)
  have c': "content ?md = Some (replicate 4194304 0x41)"
    by (simp add: shard_items_md make_item_simps)
  have p': "gitShow sample_env (path ?md) = Some sample_md"
    by (simp add: shard_items_md make_item_simps path_md gitShow_md)
  have en': "encoding ?md = Some Utf8"
    by (simp add: shard_items_md make_item_simps)
  from full_item_content [OF mem' st' c'] obtain buf where
    buf: "gitShow sample_env (path ?md) = Some buf"
      "content_sha256 ?md = Some (sha256 sample_env buf)"
    and alt: "encoding ?md = Some Base64 \<and> fromBase64 (replicate 4194304 0x41) = Some buf \<or>
      encoding ?md = Some Utf8 \<and> replicate 4194304 0x41 = toString_utf8 buf \<and>
      (well_formed_utf8 (map unat buf) \<longrightarrow>
         byteLength_utf8 (replicate 4194304 0x41) = length buf) \<and>
      length (replicate 4194304 0x41 :: jsstring) \<le> length buf \<and>
      (list_all (\<lambda>b. b < 0x80) buf \<longrightarrow>
         replicate 4194304 0x41 = (map ucast buf :: jsstring) \<and>
         length (replicate 4194304 0x41 :: jsstring) = length buf)"
    by blast
  from buf(1) p' have same: "buf = sample_md"
    by simp
  from en' have "encoding ?md \<noteq> Some Base64"
    by simp
  with alt have "list_all (\<lambda>b. b < 0x80) buf \<longrightarrow>
      replicate 4194304 0x41 = (map ucast buf :: jsstring) \<and>
      length (replicate 4194304 0x41 :: jsstring) = length buf"
    by blast
  with same list_all_sample_md buf(2)
  have "content_sha256 ?md = Some (sha256 sample_env sample_md) \<and>
      replicate 4194304 0x41 = (map ucast sample_md :: jsstring) \<and>
      length (replicate 4194304 0x41 :: jsstring) = length sample_md"
    by blast
  moreover have "fsize md_file = 4194304"
    by (simp add: md_file_def tree_record_def)
  then have "fsize ?md = 4194304"
    by (simp add: shard_items_md make_item_simps)
  ultimately have inst_md: "?md \<in> set (shard_items sample_env [md_file]) \<and>
      inline_state ?md = StateFull \<and> content ?md = Some (replicate 4194304 0x41) \<and>
      encoding ?md = Some Utf8 \<and> gitShow sample_env (path ?md) = Some sample_md \<and>
      list_all (\<lambda>b. b < 0x80) sample_md \<and>
      content_sha256 ?md = Some (sha256 sample_env sample_md) \<and>
      replicate 4194304 0x41 = (map ucast sample_md :: jsstring) \<and>
      length (replicate 4194304 0x41 :: jsstring) = length sample_md \<and>
      fsize ?md = 4194304"
    using inm st' c' p' en' list_all_sample_md by blast
  from inst_notes inst_md show ?thesis
    by (rule conjI)
qed

lemma path_txt: "path txt_file = ''a.txt''"
  by (simp add: txt_file_def tree_record_def)

lemma toString_sample_txt: "toString_utf8 sample_txt = [0xFFFD, 0xE9]"
  by (simp add: toString_utf8_def sample_txt_def utf8_lead_def utf8_init_def REPLACEMENT_def
      utf16_units_def)

lemma shard_inline_txt:
  "fst (shard_inline sample_env txt_file) =
     \<lparr>l_inline_state = StateFull, l_encoding = Some Utf8,
      l_content = Some [0xFFFD, 0xE9],
      l_content_sha = Some (sha256 sample_env sample_txt), l_meta = None\<rparr>"
proof -
  have "toString Utf8 sample_txt = Some [0xFFFD, 0xE9]"
    by (simp add: toString_def toString_sample_txt MAX_STRING_LENGTH_def)
  then show ?thesis
    by (simp add: shard_inline_def path_txt gitShow_def sample_env_def isTextPath_def
        ext_of_def split_pop_def toLowerCase_def toLowerChar_def TEXT_EXT_def
        alwaysFullText_def ALWAYS_TEXT_FULL_PATHS_def startsWith_def)
      (simp add: txt_file_def tree_record_def INLINE_TEXT_BYTES_def)
qed

text \<open>
  The claim as stated fails for a text file whose bytes are not well-formed UTF-8: the
  three bytes of the sample text file are embedded as two code units, which take five
  bytes when written as UTF-8.
\<close>

theorem full_text_length_counterexample:
  "shard_items sample_env [txt_file] \<noteq> [] \<and>
   inline_state (hd (shard_items sample_env [txt_file])) = StateFull \<and>
   encoding (hd (shard_items sample_env [txt_file])) = Some Utf8 \<and>
   gitShow sample_env (path (hd (shard_items sample_env [txt_file]))) = Some sample_txt \<and>
   fsize (hd (shard_items sample_env [txt_file])) = 3 \<and>
   length sample_txt = 3 \<and>
   content (hd (shard_items sample_env [txt_file])) = Some [0xFFFD, 0xE9] \<and>
   inline_bytes (hd (shard_items sample_env [txt_file])) = Some 2 \<and>
   byteLength_utf8 [0xFFFD, 0xE9] = 5"
proof -
  have its: "shard_items sample_env [txt_file] =
      [make_item txt_file (fst (shard_inline sample_env txt_file))]"
    by (simp add: shard_items_eq everything_subset_def path_txt startsWith_def)
  have "byteLength_utf8 [0xFFFD, 0xE9] = 5"
    by (simp add: byteLength_utf8_def unit_bytes_def)
  moreover have "gitShow sample_env ''a.txt'' = Some sample_txt"
    by (simp add: gitShow_def sample_env_def)
  moreover have "fsize txt_file = 3" and "length sample_txt = 3"
    by (simp_all add: txt_file_def tree_record_def sample_txt_def)
  ultimately show ?thesis
    by (simp add: its make_item_simps shard_inline_txt path_txt)
qed

subsection \<open>Shape hints\<close>

lemma split_on_not_Nil: "split_on c s \<noteq> []"
  by (induction s) (simp_all split: list.splits)

lemma split_on_without: "c \<notin> set s \<Longrightarrow> split_on c s = [s]"
  by (induction s) auto

lemma split_on_append:
  "c \<notin> set ys \<Longrightarrow> \<exists>w ws. split_on c (xs @ c # ys) = w # ws @ [ys]"
proof (induction xs)
  case Nil
  then show ?case by (simp add: split_on_without)
next
  case (Cons x xs)
  then obtain w ws where "split_on c (xs @ c # ys) = w # ws @ [ys]" by blast
  then show ?case by simp
qed

lemma split_pop_append: "c \<notin> set ys \<Longrightarrow> split_pop c (xs @ c # ys) = ys"
  using split_on_append [of c ys xs] by (auto simp add: split_pop_def)

lemma split_on_map:
  assumes "\<And>x. (f x = c) = (x = c)"
  shows "split_on c (map f s) = map (map f) (split_on c s)"
  by (induction s) (simp_all add: assms split: list.splits)

lemma toLowerChar_dot: "(toLowerChar x = CHR ''.'') = (x = CHR ''.'')"
proof (cases "map_of (zip ''ABCDEFGHIJKLMNOPQRSTUVWXYZ'' ''abcdefghijklmnopqrstuvwxyz'') x")
  case None
  then show ?thesis by (simp add: toLowerChar_def)
next
  case (Some l)
  then have "l \<in> set ''abcdefghijklmnopqrstuvwxyz''"
    by (meson map_of_SomeD set_zip_rightD)
  then have "l \<noteq> CHR ''.''" by auto
  moreover have "x \<noteq> CHR ''.''"
    using Some by auto
  ultimately show ?thesis
    using Some by (simp add: toLowerChar_def)
qed

lemma ext_of_lower: "ext_of p = split_pop (CHR ''.'') (toLowerCase p)"
proof -
  have "split_on (CHR ''.'') (map toLowerChar p) =
      map (map toLowerChar) (split_on (CHR ''.'') p)"
    by (rule split_on_map) (rule toLowerChar_dot)
  then show ?thesis
    by (simp add: ext_of_def split_pop_def toLowerCase_def last_map split_on_not_Nil)
qed

text \<open>A path that ends in \<^verbatim>\<open>.json\<close>, in any case, has the extension \<^verbatim>\<open>json\<close>.\<close>

lemma ext_of_json:
  assumes "endsWith (toLowerCase p) ''.json''"
  shows "ext_of p = ''json''"
proof -
  let ?l = "toLowerCase p"
  let ?n = "length ?l - length ''.json''"
  from assms have d: "drop ?n ?l = ''.json''"
    by (simp add: endsWith_def)
  have "?l = take ?n ?l @ drop ?n ?l"
    by (rule append_take_drop_id [symmetric])
  then have "?l = take ?n ?l @ CHR ''.'' # ''json''"
    by (simp only: d)
  then have "split_pop (CHR ''.'') ?l =
      split_pop (CHR ''.'') (take ?n ?l @ CHR ''.'' # ''json'')"
    by (rule arg_cong)
  also have "\<dots> = ''json''"
    by (rule split_pop_append) simp
  finally show ?thesis
    by (simp add: ext_of_lower)
qed

lemma jsonShapeHint_too_long:
  "toString Utf8 buf = None \<Longrightarrow> jsonShapeHint e buf = None"
  by (simp add: jsonShapeHint_def)

lemma jsonShapeHint_malformed:
  "toString Utf8 buf = Some s \<Longrightarrow> JSON_parse e s = None \<Longrightarrow> jsonShapeHint e buf = None"
  by (simp add: jsonShapeHint_def)

lemma jsonShapeHint_array:
  "toString Utf8 buf = Some s \<Longrightarrow> JSON_parse e s = Some (JArr xs) \<Longrightarrow>
     jsonShapeHint e buf =
       Some \<lparr>hint_type = ''array'', hint_length = Some (length xs),
             hint_sample = Some (take 3 xs), hint_keys = None\<rparr>"
  by (simp add: jsonShapeHint_def shape_of_def isArray_def min_def)

lemma jsonShapeHint_object:
  "toString Utf8 buf = Some s \<Longrightarrow> JSON_parse e s = Some (JObj kvs) \<Longrightarrow>
     jsonShapeHint e buf =
       Some \<lparr>hint_type = ''object'', hint_length = None, hint_sample = None,
             hint_keys = Some (take 12 (map fst kvs))\<rparr>"
  by (simp add: jsonShapeHint_def shape_of_def isArray_def truthy_object_def typeof_def)

lemma jsonShapeHint_null:
  "toString Utf8 buf = Some s \<Longrightarrow> JSON_parse e s = Some JNull \<Longrightarrow>
     jsonShapeHint e buf =
       Some \<lparr>hint_type = ''object'', hint_length = None, hint_sample = None,
             hint_keys = None\<rparr>"
  by (simp add: jsonShapeHint_def shape_of_def isArray_def truthy_object_def typeof_def)

text \<open>
  The hint of a preview of a file whose path ends in \<^verbatim>\<open>.json\<close> is computed from the whole
  buffer, in both writers.
\<close>

lemma preview_json_hint:
  assumes "it \<in> set (pack_items e files outBase predicate) \<union> set (shard_items e files)"
    and "inline_state it = StatePreview"
    and "endsWith (toLowerCase (path it)) ''.json''"
  shows "\<exists>buf. gitShow e (path it) = Some buf \<and> json_hint it = jsonShapeHint e buf"
  using assms(1)
proof (cases rule: emitted_item)
  case (1 f)
  from assms(3) have ext: "ext_of (path f) = ''json''"
    by (simp add: 1 make_item_simps ext_of_json)
  show ?thesis
    using assms(2) ext
    by (cases e f rule: writePack_inline_cases)
      (simp_all add: 1 make_item_simps metadata_only_def thrown_def)
next
  case (2 f)
  from assms(3) have ext: "endsWith (toLowerCase (path f)) ''.json''"
    by (simp add: 2 make_item_simps)
  show ?thesis
    using assms(2) ext
    by (cases e f rule: shard_inline_cases)
      (simp_all add: 2 make_item_simps metadata_only_def thrown_def)
qed

lemma path_null: "path null_file = ''data/null.json''"
  by (simp add: null_file_def tree_record_def)

lemma gitShow_null: "gitShow null_env ''data/null.json'' = Some null_json"
  by (simp add: gitShow_def null_env_def)

lemma toString_null: "toString Utf8 null_json = Some (toString_utf8 null_json)"
proof -
  have "length (toString_utf8 null_json) \<le> length null_json"
    by (rule toString_utf8_length)
  moreover have "length null_json \<le> MAX_STRING_LENGTH"
    by (simp add: null_json_def MAX_STRING_LENGTH_def)
  ultimately show ?thesis
    by (intro toString_utf8_ok) simp
qed

lemma parse_null: "JSON_parse null_env (toString_utf8 null_json) = Some JNull"
proof -
  have "toString_utf8 null_json = map ucast null_json"
    by (rule toString_utf8_ascii) (simp add: null_json_def list_all_iff)
  then show ?thesis
    by (simp add: null_env_def)
qed

lemma shard_inline_null:
  "fst (shard_inline null_env null_file) =
     \<lparr>l_inline_state = StatePreview, l_encoding = Some Utf8,
      l_content = Some (toString_utf8 (take PREVIEW_TEXT_BYTES null_json)),
      l_content_sha = Some (sha256 null_env null_json),
      l_meta = jsonShapeHint null_env null_json\<rparr>"
  by (simp add: shard_inline_def path_null gitShow_null isTextPath_def ext_of_def split_pop_def
      toLowerCase_def toLowerChar_def TEXT_EXT_def alwaysFullText_def
      ALWAYS_TEXT_FULL_PATHS_def startsWith_def endsWith_def preview_budget_positive Let_def
      toString_preview)
    (simp add: null_file_def tree_record_def INLINE_TEXT_BYTES_def)

text \<open>
  Claim C7. The hint of a JSON file embedded as a preview is computed from the whole
  content; an array gives its length and at most its first three elements, an object at
  most twelve keys, malformed text and text too long for a string no hint: the lemmas above. The type of the hint is not
  always the type of the top-level value: the sample file whose content is \<^verbatim>\<open>null\<close> is
  embedded as a preview and its hint has the type \<^verbatim>\<open>object\<close>, with no keys.
\<close>

theorem null_hint_type_object:
  "shard_items null_env [null_file] \<noteq> [] \<and>
   path (hd (shard_items null_env [null_file])) = ''data/null.json'' \<and>
   inline_state (hd (shard_items null_env [null_file])) = StatePreview \<and>
   gitShow null_env ''data/null.json'' = Some null_json \<and>
   JSON_parse null_env (toString_utf8 null_json) = Some JNull \<and>
   json_hint (hd (shard_items null_env [null_file])) =
     Some \<lparr>hint_type = ''object'', hint_length = None, hint_sample = None,
           hint_keys = None\<rparr>"
proof -
  have its: "shard_items null_env [null_file] =
      [make_item null_file (fst (shard_inline null_env null_file))]"
    by (simp add: shard_items_eq everything_subset_def path_null startsWith_def)
  show ?thesis
    by (simp add: its make_item_simps shard_inline_null path_null gitShow_null parse_null
        jsonShapeHint_null [OF toString_null parse_null])
qed

subsection \<open>The fallback lister\<close>

lemma walk_sha_empty: "list_all (\<lambda>r. git_blob_sha r = []) (walk e dir tree)"
  by (induction e dir tree rule: walk.induct) (simp_all add: walk_record_def)

text \<open>
  Claim C8. With no tracked file the lister walks the working directory, and every record
  of the walk has an empty content address and the size of its file. What is excluded and
  the path are not as claimed: in the sample directory the walk leaves out
  \<^verbatim>\<open>.gitignore\<close> and all of \<^verbatim>\<open>.github/\<close> together with \<^verbatim>\<open>.git/\<close>, and records \<^verbatim>\<open>.nojekyll\<close>
  under the path \<^verbatim>\<open>nojekyll\<close>.
\<close>

theorem walk_skips_git_prefix:
  "map path (list_files sample_env [] sample_tree) = [''nojekyll'', ''index.html''] \<and>
   map fsize (list_files sample_env [] sample_tree) = [0, 50] \<and>
   map git_blob_sha (list_files sample_env [] sample_tree) = ['''', '''']"
  by (simp add: list_files_def sample_tree_def path_join_def startsWith_def walk_record_def
      strip_dot_def)

subsection \<open>The combined pack\<close>

lemma written_flush:
  "\<exists>extra. written (flush e st) = written st @ extra \<and>
     list_all (\<lambda>a. startsWith (fst a) ''ai-pack-everything-'') extra"
proof (cases "st_items st = []")
  case True
  then have "written (flush e st) = written st @ []"
    by (simp add: flush_def)
  then show ?thesis by (intro exI [of _ "[]"]) simp
next
  case False
  let ?nm = "''ai-pack-everything-'' @ padStart 4 (CHR ''0'') (decimal (shardIdx st))"
  from False obtain pk where "written (flush e st) = written st @ [(?nm, pk)]"
    by (simp add: flush_def Let_def)
  moreover have "startsWith ?nm ''ai-pack-everything-''"
    by (simp add: startsWith_def)
  ultimately show ?thesis
    by (intro exI [of _ "[(?nm, pk)]"]) simp
qed

lemma written_shard_loop:
  "\<exists>extra. written (shard_loop e fs st) = written st @ extra \<and>
     list_all (\<lambda>a. startsWith (fst a) ''ai-pack-everything-'') extra"
proof (induction fs arbitrary: st)
  case Nil
  show ?case by (intro exI [of _ "[]"]) simp
next
  case (Cons f fs)
  obtain l n where ln: "shard_inline e f = (l, n)" by (cases "shard_inline e f")
  let ?st2 = "st\<lparr>st_bytes := st_bytes st + n, st_items := st_items st @ [make_item f l]\<rparr>"
  let ?next = "if SHARD_TARGET_BYTES \<le> st_bytes ?st2 \<or> SHARD_MAX_ITEMS \<le> length (st_items ?st2)
               then flush e ?st2 else ?st2"
  have step: "shard_loop e (f # fs) st = shard_loop e fs ?next"
    by (simp add: ln Let_def)
  obtain x1 where x1: "written ?next = written st @ x1"
    "list_all (\<lambda>a. startsWith (fst a) ''ai-pack-everything-'') x1"
  proof (cases "SHARD_TARGET_BYTES \<le> st_bytes ?st2 \<or> SHARD_MAX_ITEMS \<le> length (st_items ?st2)")
    case True
    from written_flush [where e = e and st = ?st2] obtain x where
      "written (flush e ?st2) = written ?st2 @ x"
      "list_all (\<lambda>a. startsWith (fst a) ''ai-pack-everything-'') x"
      by blast
    with True that [of x] show ?thesis by simp
  next
    case False
    with that [of "[]"] show ?thesis by simp
  qed
  from Cons.IH [where st = ?next] obtain x2 where x2: "written (shard_loop e fs ?next) = written ?next @ x2"
    "list_all (\<lambda>a. startsWith (fst a) ''ai-pack-everything-'') x2"
    by blast
  have "written (shard_loop e (f # fs) st) = written st @ (x1 @ x2)"
    by (simp only: step x2(1) x1(1) append_assoc)
  moreover have "list_all (\<lambda>a. startsWith (fst a) ''ai-pack-everything-'') (x1 @ x2)"
    using x1(2) x2(2) by simp
  ultimately show ?case by blast
qed

lemma run_artifacts_split:
  "\<exists>extra. run_artifacts e files = targeted_packs e files @ extra \<and>
     list_all (\<lambda>a. startsWith (fst a) ''ai-pack-everything-'') extra"
proof -
  let ?init = "\<lparr>st_items = [], st_bytes = 0, shardIdx = 1, shards = [],
               written = targeted_packs e files\<rparr>"
  let ?st = "shard_loop e (everything_subset files) ?init"
  from written_shard_loop [where e = e and fs = "everything_subset files" and st = ?init]
  obtain x1 where
    x1: "written ?st = targeted_packs e files @ x1"
    "list_all (\<lambda>a. startsWith (fst a) ''ai-pack-everything-'') x1"
    by auto
  from written_flush [where e = e and st = ?st] obtain x2 where
    x2: "written (flush e ?st) = written ?st @ x2"
    "list_all (\<lambda>a. startsWith (fst a) ''ai-pack-everything-'') x2"
    by blast
  have "run_artifacts e files = targeted_packs e files @ (x1 @ x2)"
    unfolding run_artifacts_def writeEverythingSharded_def
    by (simp only: x2(1) x1(1) append_assoc)
  moreover have "list_all (\<lambda>a. startsWith (fst a) ''ai-pack-everything-'') (x1 @ x2)"
    using x1(2) x2(2) by simp
  ultimately show ?thesis by blast
qed

lemma read_min_json_append:
  assumes "list_all (\<lambda>a. startsWith (fst a) ''ai-pack-everything-'') extra"
    and "\<not> startsWith nm ''ai-pack-everything-''"
  shows "read_min_json (arts @ extra) nm = read_min_json arts nm"
proof -
  have "nm \<notin> fst ` set (rev extra)"
    using assms by (auto simp add: list_all_iff)
  then have "map_of (rev extra) nm = None"
    by (simp add: map_of_eq_None_iff)
  then show ?thesis
    by (simp add: read_min_json_def map_add_def)
qed

lemma read_min_json_run:
  assumes "\<not> startsWith nm ''ai-pack-everything-''"
  shows "read_min_json (run_artifacts e files) nm = read_min_json (targeted_packs e files) nm"
proof -
  from run_artifacts_split [of e files] obtain extra where
    "run_artifacts e files = targeted_packs e files @ extra"
    "list_all (\<lambda>a. startsWith (fst a) ''ai-pack-everything-'') extra"
    by blast
  with assms show ?thesis
    by (simp add: read_min_json_append)
qed

text \<open>The shards do not depend on the artifacts written before them.\<close>

lemma after_artifacts_flush:
  "after_artifacts arts st st' \<Longrightarrow> after_artifacts arts (flush e st) (flush e st')"
  by (simp add: after_artifacts_def flush_def Let_def)

lemma after_artifacts_shard_loop:
  "after_artifacts arts st st' \<Longrightarrow>
     after_artifacts arts (shard_loop e fs st) (shard_loop e fs st')"
proof (induction fs arbitrary: st st')
  case Nil
  then show ?case by simp
next
  case (Cons f fs)
  obtain l n where ln: "shard_inline e f = (l, n)" by (cases "shard_inline e f")
  let ?step = "\<lambda>s. s\<lparr>st_bytes := st_bytes s + n, st_items := st_items s @ [make_item f l]\<rparr>"
  let ?next = "\<lambda>s. if SHARD_TARGET_BYTES \<le> st_bytes (?step s) \<or>
                        SHARD_MAX_ITEMS \<le> length (st_items (?step s))
                     then flush e (?step s) else ?step s"
  have step: "after_artifacts arts (?step st) (?step st')"
    using Cons.prems by (simp add: after_artifacts_def)
  then have "after_artifacts arts (flush e (?step st)) (flush e (?step st'))"
    by (rule after_artifacts_flush)
  with step have "after_artifacts arts (?next st) (?next st')"
    using Cons.prems by (simp add: after_artifacts_def)
  then have "after_artifacts arts (shard_loop e fs (?next st)) (shard_loop e fs (?next st'))"
    by (rule Cons.IH)
  moreover have "shard_loop e (f # fs) st = shard_loop e fs (?next st)"
    and "shard_loop e (f # fs) st' = shard_loop e fs (?next st')"
    by (simp_all add: ln Let_def)
  ultimately show ?case by simp
qed

lemma run_artifacts_shards:
  "run_artifacts e files = targeted_packs e files @ written (writeEverythingSharded e files [])"
proof -
  let ?init = "\<lambda>arts. \<lparr>st_items = [], st_bytes = 0, shardIdx = 1, shards = [], written = arts\<rparr>"
  have "after_artifacts (targeted_packs e files) (?init []) (?init (targeted_packs e files))"
    by (simp add: after_artifacts_def)
  then have "after_artifacts (targeted_packs e files)
      (shard_loop e (everything_subset files) (?init []))
      (shard_loop e (everything_subset files) (?init (targeted_packs e files)))"
    by (rule after_artifacts_shard_loop)
  then have "after_artifacts (targeted_packs e files)
      (writeEverythingSharded e files [])
      (writeEverythingSharded e files (targeted_packs e files))"
    unfolding writeEverythingSharded_def by (rule after_artifacts_flush)
  then show ?thesis
    by (simp add: after_artifacts_def run_artifacts_def)
qed

text \<open>The pack that \<^verbatim>\<open>writePack\<close> builds for a name and a predicate.\<close>

lemma read_targeted:
  "read_min_json (targeted_packs e files) ''ai-pack-docs'' =
     Some (snd (hd (writePack e files ''ai-pack-docs'' docs_predicate [])))"
  "read_min_json (targeted_packs e files) ''ai-pack-data-config'' =
     Some (snd (hd (writePack e files ''ai-pack-data-config'' data_config_predicate [])))"
  "read_min_json (targeted_packs e files) ''ai-pack-core'' =
     Some (snd (hd (writePack e files ''ai-pack-core'' core_predicate [])))"
  "read_min_json (targeted_packs e files) ''ai-pack-ci'' =
     Some (snd (hd (writePack e files ''ai-pack-ci'' ci_predicate [])))"
  by (simp_all add: read_min_json_def targeted_packs_def writePack_def Let_def)

lemma writePack_count:
  "count (snd (hd (writePack e files outBase predicate []))) = length (filter predicate files)"
  "items (snd (hd (writePack e files outBase predicate []))) =
     pack_items e files outBase predicate"
  by (simp_all add: writePack_def Let_def pack_items_def)

text \<open>
  Claim C9. In a whole run each of the four named packs is read back, and the section of
  the combined pack under its name holds the items read back and counts them; that count
  is the count the pack recorded when it was written, the number of files of its
  predicate.
\<close>

theorem combined_counts_match:
  "\<exists>docs dat core ci.
     read_min_json (run_artifacts e files) ''ai-pack-docs'' = Some docs \<and>
     read_min_json (run_artifacts e files) ''ai-pack-data-config'' = Some dat \<and>
     read_min_json (run_artifacts e files) ''ai-pack-core'' = Some core \<and>
     read_min_json (run_artifacts e files) ''ai-pack-ci'' = Some ci \<and>
     combined_sections (run_artifacts e files) =
       Some [(''ai-pack-docs'', \<lparr>section_count = count docs, section_items = items docs\<rparr>),
             (''ai-pack-data-config'',
                \<lparr>section_count = count dat, section_items = items dat\<rparr>),
             (''ai-pack-core'', \<lparr>section_count = count core, section_items = items core\<rparr>),
             (''ai-pack-ci'', \<lparr>section_count = count ci, section_items = items ci\<rparr>)] \<and>
     count docs = length (items docs) \<and> count dat = length (items dat) \<and>
     count core = length (items core) \<and> count ci = length (items ci) \<and>
     items docs = pack_items e files ''ai-pack-docs'' docs_predicate \<and>
     items dat = pack_items e files ''ai-pack-data-config'' data_config_predicate \<and>
     items core = pack_items e files ''ai-pack-core'' core_predicate \<and>
     items ci = pack_items e files ''ai-pack-ci'' ci_predicate"
proof -
  let ?A = "run_artifacts e files"
  let ?docs = "snd (hd (writePack e files ''ai-pack-docs'' docs_predicate []))"
  let ?dat = "snd (hd (writePack e files ''ai-pack-data-config'' data_config_predicate []))"
  let ?core = "snd (hd (writePack e files ''ai-pack-core'' core_predicate []))"
  let ?ci = "snd (hd (writePack e files ''ai-pack-ci'' ci_predicate []))"
  have r1: "read_min_json ?A ''ai-pack-docs'' = Some ?docs"
    by (subst read_min_json_run) (simp_all add: startsWith_def read_targeted)
  have r2: "read_min_json ?A ''ai-pack-data-config'' = Some ?dat"
    by (subst read_min_json_run) (simp_all add: startsWith_def read_targeted)
  have r3: "read_min_json ?A ''ai-pack-core'' = Some ?core"
    by (subst read_min_json_run) (simp_all add: startsWith_def read_targeted)
  have r4: "read_min_json ?A ''ai-pack-ci'' = Some ?ci"
    by (subst read_min_json_run) (simp_all add: startsWith_def read_targeted)
  have len: "count ?docs = length (items ?docs)" "count ?dat = length (items ?dat)"
    "count ?core = length (items ?core)" "count ?ci = length (items ?ci)"
    by (simp_all add: writePack_count pack_items_eq)
  have sec: "combined_sections ?A =
      Some [(''ai-pack-docs'', \<lparr>section_count = count ?docs, section_items = items ?docs\<rparr>),
            (''ai-pack-data-config'',
               \<lparr>section_count = count ?dat, section_items = items ?dat\<rparr>),
            (''ai-pack-core'', \<lparr>section_count = count ?core, section_items = items ?core\<rparr>),
            (''ai-pack-ci'', \<lparr>section_count = count ?ci, section_items = items ?ci\<rparr>)]"
    by (simp add: combined_sections_def COMBINED_NAMES_def r1 r2 r3 r4 len)
  show ?thesis
    using r1 r2 r3 r4 sec len writePack_count(2) by blast
qed

end
